(* ===== verification/Prelude.thy ===== *)
theory Prelude
  imports Main "HOL-Library.Word" "HOL-Library.AList"
begin

text \<open>
  What every component of the development shares: the machine integers of the Rust sources
  under their Rust names, the \<open>saturating_sub\<close>, \<open>saturating_add\<close> and \<open>checked_sub\<close> of
  the standard library, \<open>Iterator::find_map\<close>, and \<open>HashMap\<close> as an association list whose
  order stands for the unspecified iteration order. The lemma collections that the component
  theories fill are declared here too.
\<close>

section \<open>Lemma collections\<close>

named_theorems fresh_simps
  \<open>equations of the string functions on text that has no character they look for\<close>

named_theorems collector_simps
  \<open>what each operation of the metrics collector does to each part of its state\<close>

section \<open>Machine integers\<close>

type_synonym u8 = "8 word"
type_synonym u16 = "16 word"
type_synonym u32 = "32 word"
type_synonym u64 = "64 word"
type_synonym usize = "64 word" \<comment> \<open>the supported targets are x86-64 and aarch64\<close>
type_synonym i16 = "16 word" \<comment> \<open>two's complement, read with \<open>sint\<close>\<close>
type_synonym i32 = "32 word" \<comment> \<open>two's complement, read with \<open>sint\<close>\<close>

definition saturating_sub :: "'a::len word \<Rightarrow> 'a word \<Rightarrow> 'a word" where
  "saturating_sub a b = (if a < b then 0 else a - b)"

definition saturating_add :: "'a::len word \<Rightarrow> 'a word \<Rightarrow> 'a word" where
  "saturating_add a b = (if unat a + unat b < 2 ^ LENGTH('a) then a + b else - 1)"

definition checked_sub :: "'a::len word \<Rightarrow> 'a word \<Rightarrow> 'a word option" where
  "checked_sub a b = (if a < b then None else Some (a - b))"

lemma unat_saturating_sub: "unat (saturating_sub a b) = unat a - unat b"
  by (auto simp: saturating_sub_def word_less_nat_alt unat_sub_if')

lemma unat_saturating_add:
  "unat (saturating_add a b) = min (unat a + unat b) (2 ^ LENGTH('a) - 1)"
  for a b :: "'a::len word"
  by (auto simp: saturating_add_def unat_word_ariths unsigned_minus_1_eq_mask mask_eq_exp_minus_1)

lemma saturating_sub_self [simp]: "saturating_sub a a = 0"
  by (simp add: saturating_sub_def)

lemma checked_sub_Some_iff: "checked_sub a b = Some d \<longleftrightarrow> b \<le> a \<and> d = a - b"
  by (auto simp: checked_sub_def)

lemma checked_sub_None_iff: "checked_sub a b = None \<longleftrightarrow> a < b"
  by (auto simp: checked_sub_def)

lemma saturating_sub_ge_iff:
  "t \<le> saturating_sub a b \<longleftrightarrow> unat t \<le> unat a - unat b"
  by (simp add: word_le_nat_alt unat_saturating_sub)

section \<open>Iterators\<close>

text \<open>\<open>iter.find_map(f)\<close>: the first \<open>Some\<close> that \<open>f\<close> yields.\<close>

fun find_map :: "('a \<Rightarrow> 'b option) \<Rightarrow> 'a list \<Rightarrow> 'b option" where
  "find_map f [] = None"
| "find_map f (x # xs) = (case f x of None \<Rightarrow> find_map f xs | Some y \<Rightarrow> Some y)"

lemma find_map_None_iff: "find_map f xs = None \<longleftrightarrow> (\<forall>x \<in> set xs. f x = None)"
  by (induction xs) (auto split: option.splits)

lemma find_map_SomeD: "find_map f xs = Some y \<Longrightarrow> \<exists>x \<in> set xs. f x = Some y"
  by (induction xs) (auto split: option.splits)

lemma find_map_first:
  "\<forall>p \<in> set ps. f p = None \<Longrightarrow> f x = Some y \<Longrightarrow> find_map f (ps @ x # ss) = Some y"
  by (induction ps) auto

lemma find_map_Some_split:
  assumes "find_map f xs = Some y"
  shows "\<exists>ps x ss. xs = ps @ x # ss \<and> (\<forall>p \<in> set ps. f p = None) \<and> f x = Some y"
  using assms
proof (induction xs)
  case Nil
  then show ?case by simp
next
  case (Cons a xs)
  show ?case
  proof (cases "f a")
    case None
    with Cons obtain ps x ss
      where "xs = ps @ x # ss" "\<forall>p \<in> set ps. f p = None" "f x = Some y" by auto
    with None have "a # xs = (a # ps) @ x # ss \<and> (\<forall>p \<in> set (a # ps). f p = None) \<and> f x = Some y"
      by simp
    then show ?thesis by blast
  next
    case (Some z)
    with Cons.prems have "a # xs = [] @ a # xs \<and> f a = Some y" by simp
    then show ?thesis by fastforce
  qed
qed

lemma find_map_append:
  "find_map f (xs @ ys) = (case find_map f xs of None \<Rightarrow> find_map f ys | Some y \<Rightarrow> Some y)"
  by (induction xs) (auto split: option.splits)

lemma find_map_map: "find_map f (map g xs) = find_map (f \<circ> g) xs"
  by (induction xs) (auto split: option.splits)

lemma find_map_cong [fundef_cong]:
  "xs = ys \<Longrightarrow> (\<And>x. x \<in> set ys \<Longrightarrow> f x = g x) \<Longrightarrow> find_map f xs = find_map g ys"
  by (induction ys arbitrary: xs) (auto split: option.splits)

text \<open>\<open>iter.filter_map(f).collect()\<close> is the library's \<open>List.map_filter\<close>.\<close>

lemma map_filter_append: "List.map_filter f (xs @ ys) = List.map_filter f xs @ List.map_filter f ys"
  by (simp add: map_filter_def)

lemma map_filter_Nil_iff: "List.map_filter f xs = [] \<longleftrightarrow> (\<forall>x \<in> set xs. f x = None)"
  by (induction xs) (auto simp: map_filter_simps split: option.splits)

lemma set_map_filter: "set (List.map_filter f xs) = {y. \<exists>x \<in> set xs. f x = Some y}"
  by (induction xs) (auto split: option.splits)

section \<open>HashMap\<close>

text \<open>
  A \<open>HashMap\<close> is an association list with distinct keys. The list order plays the part of
  the iteration order, which Rust leaves unspecified: what is proved holds for every order.
\<close>

type_synonym ('k, 'v) hash_map = "('k \<times> 'v) list"

definition hm_ok :: "('k, 'v) hash_map \<Rightarrow> bool" where
  "hm_ok m \<longleftrightarrow> distinct (map fst m)"

abbreviation hm_keys :: "('k, 'v) hash_map \<Rightarrow> 'k set" where
  "hm_keys m \<equiv> fst ` set m"

definition hm_insert :: "'k \<Rightarrow> 'v \<Rightarrow> ('k, 'v) hash_map \<Rightarrow> ('k, 'v) hash_map" where
  "hm_insert k v m = AList.update k v m"

text \<open>\<open>retain\<close> keeps the entries the closure accepts.\<close>

definition hm_retain :: "('k \<Rightarrow> 'v \<Rightarrow> bool) \<Rightarrow> ('k, 'v) hash_map \<Rightarrow> ('k, 'v) hash_map" where
  "hm_retain p m = filter (\<lambda>(k, v). p k v) m"

lemma hm_ok_Nil [simp]: "hm_ok []"
  by (simp add: hm_ok_def)

lemma hm_ok_insert [simp]: "hm_ok m \<Longrightarrow> hm_ok (hm_insert k v m)"
  by (simp add: hm_ok_def hm_insert_def distinct_update)

lemma hm_ok_retain [simp]: "hm_ok m \<Longrightarrow> hm_ok (hm_retain p m)"
  by (simp add: hm_ok_def hm_retain_def distinct_map_filter)

lemma map_of_hm_insert [simp]: "map_of (hm_insert k v m) = (map_of m)(k \<mapsto> v)"
  by (simp add: hm_insert_def update_conv')

lemma hm_keys_insert [simp]: "hm_keys (hm_insert k v m) = insert k (hm_keys m)"
  by (metis dom_map_of_conv_image_fst dom_fun_upd map_of_hm_insert option.distinct(1))

lemma set_hm_retain: "set (hm_retain p m) = {(k, v) \<in> set m. p k v}"
  by (auto simp: hm_retain_def)

lemma map_of_hm_retain:
  assumes "hm_ok m"
  shows "map_of (hm_retain p m) k = (case map_of m k of Some v \<Rightarrow> if p k v then Some v else None | None \<Rightarrow> None)"
  using assms
  by (induction m) (auto simp: hm_ok_def hm_retain_def split: option.splits
        dest: map_of_SomeD weak_map_of_SomeI intro!: map_of_eq_None_iff [THEN iffD2])

lemma hm_map_of_iff: "hm_ok m \<Longrightarrow> map_of m k = Some v \<longleftrightarrow> (k, v) \<in> set m"
  by (simp add: hm_ok_def)

end
