(* ===== verification/Layout.thy ===== *)
theory Layout
  imports Prelude
begin

text \<open>
  Memory layouts. The program moves two structs as raw bytes: the kernel's trace entry, read
  by the probe, and the event the probe puts into the ring buffer, read by userspace. Here a
  layout is the list of \<open>(name, offset, size)\<close> of its fields, \<open>repr_c\<close> computes the one
  that \<open>#[repr(C)]\<close> prescribes, and \<open>struct_bytes\<close> and \<open>field_at\<close> write and read bytes by a
  layout. All targets of the program (x86-64, aarch64, bpfel) are little-endian and align
  every integer to its size.
\<close>

type_synonym layout = "(string \<times> nat \<times> nat) list"

section \<open>The C layout rule\<close>

definition align_up :: "nat \<Rightarrow> nat \<Rightarrow> nat" where
  "align_up a n = (n + a - 1) div a * a"

text \<open>Fields are \<open>(name, size, alignment)\<close>; each goes to the next multiple of its alignment.\<close>

fun repr_c :: "nat \<Rightarrow> (string \<times> nat \<times> nat) list \<Rightarrow> layout" where
  "repr_c off [] = []"
| "repr_c off ((name, sz, al) # fs) =
     (let o' = align_up al off in (name, o', sz) # repr_c (o' + sz) fs)"

fun layout_end :: "layout \<Rightarrow> nat" where
  "layout_end [] = 0"
| "layout_end ((name, off, sz) # fs) = max (off + sz) (layout_end fs)"

definition repr_c_size :: "(string \<times> nat \<times> nat) list \<Rightarrow> nat" where
  "repr_c_size fs = align_up (foldr (\<lambda>(n, s, a). max a) fs 1) (layout_end (repr_c 0 fs))"

section \<open>Little-endian integers\<close>

fun le_bytes :: "nat \<Rightarrow> nat \<Rightarrow> u8 list" where
  "le_bytes 0 n = []"
| "le_bytes (Suc k) n = of_nat (n mod 256) # le_bytes k (n div 256)"

fun le_nat :: "u8 list \<Rightarrow> nat" where
  "le_nat [] = 0"
| "le_nat (b # bs) = unat b + 256 * le_nat bs"

definition le_word :: "u8 list \<Rightarrow> 'a::len word" where
  "le_word bs = of_nat (le_nat bs)"

lemma length_le_bytes [simp]: "length (le_bytes k n) = k"
  by (induction k arbitrary: n) auto

lemma le_nat_le_bytes: "le_nat (le_bytes k n) = n mod 256 ^ k"
proof (induction k arbitrary: n)
  case 0
  then show ?case by simp
next
  case (Suc k)
  have "unat (of_nat (n mod 256) :: u8) = n mod 256"
    by (simp add: unat_of_nat)
  with Suc show ?case by (simp add: mod_mult2_eq)
qed

lemma le_word_le_bytes:
  assumes "LENGTH('a) = 8 * k"
  shows "le_word (le_bytes k (unat w)) = (w :: 'a::len word)"
proof -
  have "(256 :: nat) ^ k = 2 ^ LENGTH('a)" by (simp add: assms power_mult)
  then show ?thesis by (simp add: le_word_def le_nat_le_bytes)
qed

section \<open>Reading and writing by a layout\<close>

text \<open>The first entry of that name, as \<open>iter().find\<close> takes it.\<close>

definition layout_find :: "layout \<Rightarrow> string \<Rightarrow> (nat \<times> nat) option" where
  "layout_find l name = map_of l name"

lemma layout_findI: "distinct (map fst l) \<Longrightarrow> (name, off, sz) \<in> set l \<Longrightarrow> layout_find l name = Some (off, sz)"
  by (simp add: layout_find_def)

definition bytes_at :: "nat \<Rightarrow> nat \<Rightarrow> u8 list \<Rightarrow> u8 list" where
  "bytes_at off sz bs = take sz (drop off bs)"

definition field_at :: "layout \<Rightarrow> string \<Rightarrow> u8 list \<Rightarrow> u8 list" where
  "field_at l name bs =
     (case layout_find l name of None \<Rightarrow> [] | Some (off, sz) \<Rightarrow> bytes_at off sz bs)"

text \<open>
  The bytes of a struct: a field's bytes at its offset, and at every other position whatever
  the padding happens to hold.
\<close>

definition covers :: "nat \<Rightarrow> string \<times> nat \<times> nat \<Rightarrow> bool" where
  "covers i f = (case f of (name, off, sz) \<Rightarrow> off \<le> i \<and> i < off + sz)"

definition struct_byte :: "layout \<Rightarrow> (string \<Rightarrow> u8 list) \<Rightarrow> (nat \<Rightarrow> u8) \<Rightarrow> nat \<Rightarrow> u8" where
  "struct_byte l val pad i =
     (case find (covers i) l of
        None \<Rightarrow> pad i
      | Some (name, off, sz) \<Rightarrow> val name ! (i - off))"

definition struct_bytes :: "layout \<Rightarrow> nat \<Rightarrow> (string \<Rightarrow> u8 list) \<Rightarrow> (nat \<Rightarrow> u8) \<Rightarrow> u8 list" where
  "struct_bytes l len val pad = map (struct_byte l val pad) [0..<len]"

text \<open>No two fields share a byte, and all lie within the struct.\<close>

fun disjoint_fields :: "layout \<Rightarrow> bool" where
  "disjoint_fields [] = True"
| "disjoint_fields ((n, o1, s1) # fs) =
     ((\<forall>(m, o2, s2) \<in> set fs. o1 + s1 \<le> o2 \<or> o2 + s2 \<le> o1) \<and> disjoint_fields fs)"

definition layout_ok :: "layout \<Rightarrow> nat \<Rightarrow> bool" where
  "layout_ok l len \<longleftrightarrow> disjoint_fields l \<and> (\<forall>(n, off, sz) \<in> set l. off + sz \<le> len)"

lemma length_struct_bytes [simp]: "length (struct_bytes l len val pad) = len"
  by (simp add: struct_bytes_def)

lemma find_covers:
  assumes "disjoint_fields l" "f \<in> set l" "covers i f"
  shows "find (covers i) l = Some f"
  using assms
proof (induction l rule: disjoint_fields.induct)
  case 1
  then show ?case by simp
next
  case (2 n o1 s1 fs)
  show ?case
  proof (cases "f = (n, o1, s1)")
    case True
    with 2 show ?thesis by simp
  next
    case False
    with 2 have "\<not> covers i (n, o1, s1)" by (fastforce simp: covers_def)
    with False 2 show ?thesis by simp
  qed
qed

text \<open>What a field was given is what is read back, whatever the padding holds.\<close>

lemma bytes_at_struct_bytes:
  assumes "layout_ok l len" "(name, off, sz) \<in> set l" "length (val name) = sz"
  shows "bytes_at off sz (struct_bytes l len val pad) = val name"
proof (rule nth_equalityI)
  from assms have tot: "off + sz \<le> len" by (auto simp: layout_ok_def)
  with assms(3) show ln: "length (bytes_at off sz (struct_bytes l len val pad)) = length (val name)"
    by (simp add: bytes_at_def)
  fix i
  assume "i < length (bytes_at off sz (struct_bytes l len val pad))"
  with ln assms(3) have i: "i < sz" by simp
  with assms have "find (covers (off + i)) l = Some (name, off, sz)"
    by (intro find_covers) (auto simp: layout_ok_def covers_def)
  with i tot show "bytes_at off sz (struct_bytes l len val pad) ! i = val name ! i"
    by (simp add: bytes_at_def struct_bytes_def struct_byte_def)
qed

lemma field_at_struct_bytes:
  assumes "layout_ok l len" "layout_find l' name = Some (off, sz)"
    "(name', off, sz) \<in> set l" "length (val name') = sz"
  shows "field_at l' name (struct_bytes l len val pad) = val name'"
  using assms bytes_at_struct_bytes [where val = val, OF assms(1,3,4)] by (simp add: field_at_def)

text \<open>Bytes after the struct do not matter to a read inside it.\<close>

lemma bytes_at_append: "off + sz \<le> length bs \<Longrightarrow> bytes_at off sz (bs @ cs) = bytes_at off sz bs"
  by (simp add: bytes_at_def)

end
