(* ===== verification/Events.thy ===== *)
theory Events
  imports Layout
begin

text \<open>
  \<open>oom-watcher-common/src/lib.rs\<close>: the event the probe sends, the container identity and the
  enriched event; and \<open>OomKillEvent\<close> as the bytes that cross the ring buffer. Record fields
  carry a prefix (\<open>ev_\<close>, \<open>ci_\<close>, \<open>en_\<close>) because the Rust structs share field names.
\<close>

record oom_kill_event =
  ev_pid :: u32
  ev_comm :: "u8 list"
  ev_total_vm :: u64
  ev_anon_rss :: u64
  ev_file_rss :: u64
  ev_shmem_rss :: u64
  ev_uid :: u32
  ev_pgtables :: u64
  ev_oom_score_adj :: i16

record container_identity =
  ci_namespace :: string
  ci_pod_name :: string
  ci_container_name :: string
  ci_container_id :: string
  ci_image_id :: string

record enriched_oom_event =
  en_raw_event :: oom_kill_event
  en_node_name :: "string option"
  en_namespace :: "string option"
  en_pod_name :: "string option"
  en_container_name :: "string option"
  en_container_id :: "string option"
  en_image_id :: "string option"
  en_timestamp :: u64

section \<open>The event in memory\<close>

text \<open>The \<open>#[repr(C)]\<close> fields with their sizes and alignments; \<open>comm\<close> is \<open>[u8; 16]\<close>.\<close>

definition oom_kill_event_fields :: "(string \<times> nat \<times> nat) list" where
  "oom_kill_event_fields =
     [(''pid'', 4, 4), (''comm'', 16, 1), (''total_vm'', 8, 8), (''anon_rss'', 8, 8),
      (''file_rss'', 8, 8), (''shmem_rss'', 8, 8), (''uid'', 4, 4), (''pgtables'', 8, 8),
      (''oom_score_adj'', 2, 2)]"

definition oom_kill_event_layout :: layout where
  "oom_kill_event_layout = repr_c 0 oom_kill_event_fields"

text \<open>\<open>core::mem::size_of::<OomKillEvent>()\<close>.\<close>

definition size_of_OomKillEvent :: nat where
  "size_of_OomKillEvent = repr_c_size oom_kill_event_fields"

text \<open>The type of a well-formed event: the only Rust type not expressed by a HOL type.\<close>

definition event_ok :: "oom_kill_event \<Rightarrow> bool" where
  "event_ok ev \<longleftrightarrow> length (ev_comm ev) = 16"

definition event_field :: "oom_kill_event \<Rightarrow> string \<Rightarrow> u8 list" where
  "event_field ev name =
     (if name = ''pid'' then le_bytes 4 (unat (ev_pid ev))
      else if name = ''comm'' then ev_comm ev
      else if name = ''total_vm'' then le_bytes 8 (unat (ev_total_vm ev))
      else if name = ''anon_rss'' then le_bytes 8 (unat (ev_anon_rss ev))
      else if name = ''file_rss'' then le_bytes 8 (unat (ev_file_rss ev))
      else if name = ''shmem_rss'' then le_bytes 8 (unat (ev_shmem_rss ev))
      else if name = ''uid'' then le_bytes 4 (unat (ev_uid ev))
      else if name = ''pgtables'' then le_bytes 8 (unat (ev_pgtables ev))
      else if name = ''oom_score_adj'' then le_bytes 2 (unat (ev_oom_score_adj ev))
      else [])"

text \<open>The event as the probe's \<open>output\<close> copies it, padding included.\<close>

definition event_bytes :: "(nat \<Rightarrow> u8) \<Rightarrow> oom_kill_event \<Rightarrow> u8 list" where
  "event_bytes pad ev =
     struct_bytes oom_kill_event_layout size_of_OomKillEvent (event_field ev) pad"

text \<open>\<open>ptr.read_unaligned()\<close> at the type \<open>OomKillEvent\<close>.\<close>

definition read_event :: "u8 list \<Rightarrow> oom_kill_event" where
  "read_event bs =
     (let f = (\<lambda>name. field_at oom_kill_event_layout name bs) in
      \<lparr>ev_pid = le_word (f ''pid''), ev_comm = f ''comm'',
       ev_total_vm = le_word (f ''total_vm''), ev_anon_rss = le_word (f ''anon_rss''),
       ev_file_rss = le_word (f ''file_rss''), ev_shmem_rss = le_word (f ''shmem_rss''),
       ev_uid = le_word (f ''uid''), ev_pgtables = le_word (f ''pgtables''),
       ev_oom_score_adj = le_word (f ''oom_score_adj'')\<rparr>)"

lemma oom_kill_event_layout_eq:
  "oom_kill_event_layout =
     [(''pid'', 0, 4), (''comm'', 4, 16), (''total_vm'', 24, 8), (''anon_rss'', 32, 8),
      (''file_rss'', 40, 8), (''shmem_rss'', 48, 8), (''uid'', 56, 4), (''pgtables'', 64, 8),
      (''oom_score_adj'', 72, 2)]"
  by (simp add: oom_kill_event_layout_def oom_kill_event_fields_def Let_def align_up_def)

lemma size_of_OomKillEvent_eq: "size_of_OomKillEvent = 80"
  by (simp add: size_of_OomKillEvent_def repr_c_size_def oom_kill_event_fields_def Let_def align_up_def)

lemma oom_kill_event_layout_ok: "layout_ok oom_kill_event_layout size_of_OomKillEvent"
  by (simp add: layout_ok_def oom_kill_event_layout_eq size_of_OomKillEvent_eq)

lemma event_bytes_length: "length (event_bytes pad ev) = size_of_OomKillEvent"
  by (simp add: event_bytes_def)

lemma event_layout_names:
  "map fst oom_kill_event_layout =
     [''pid'', ''comm'', ''total_vm'', ''anon_rss'', ''file_rss'', ''shmem_rss'', ''uid'',
      ''pgtables'', ''oom_score_adj'']"
  by (simp add: oom_kill_event_layout_eq)

lemma length_event_field:
  "event_ok ev \<Longrightarrow> (name, off, sz) \<in> set oom_kill_event_layout \<Longrightarrow> length (event_field ev name) = sz"
  unfolding oom_kill_event_layout_eq list.set insert_iff prod.inject
  by (elim disjE conjE) (simp_all add: event_ok_def event_field_def)

lemma field_at_event_bytes:
  assumes "event_ok ev" "name \<in> set (map fst oom_kill_event_layout)"
  shows "field_at oom_kill_event_layout name (event_bytes pad ev @ rest) = event_field ev name"
proof -
  from assms(2) obtain off sz where m: "(name, off, sz) \<in> set oom_kill_event_layout" by auto
  have find: "layout_find oom_kill_event_layout name = Some (off, sz)"
    using m by (rule layout_findI [rotated]) (simp add: event_layout_names)
  have "off + sz \<le> length (event_bytes pad ev)"
    using m oom_kill_event_layout_ok by (auto simp: layout_ok_def event_bytes_length)
  with find field_at_struct_bytes
    [where val = "event_field ev", OF oom_kill_event_layout_ok find m length_event_field [OF assms(1) m]]
  show ?thesis by (simp add: field_at_def bytes_at_append event_bytes_def)
qed

lemma read_event_bytes:
  assumes "event_ok ev"
  shows "read_event (event_bytes pad ev @ rest) = ev"
  by (simp add: read_event_def Let_def field_at_event_bytes [OF assms] event_layout_names
      event_field_def le_word_le_bytes)

lemma event_ok_read_event: "size_of_OomKillEvent \<le> length bs \<Longrightarrow> event_ok (read_event bs)"
  by (simp add: event_ok_def read_event_def Let_def field_at_def layout_find_def bytes_at_def
      oom_kill_event_layout_eq size_of_OomKillEvent_eq)

end
