(* ===== verification/Rust_Str.thy ===== *)
theory Rust_Str
  imports Prelude "HOL-Library.Sublist"
begin

text \<open>
  The parts of \<open>str\<close> and of integer parsing and printing that the sources use. A Rust string
  is the list of its UTF-8 bytes. \<open>White_Space\<close> is Unicode's, so its members are byte
  sequences of up to three bytes; a sequence starts with a byte that never continues a scalar
  value, so it is only found at a character boundary. Reading a file is a function from
  paths to a text or an \<open>io::Error\<close>.
\<close>

section \<open>Prefixes, suffixes, substrings\<close>

fun strip_prefix :: "string \<Rightarrow> string \<Rightarrow> string option" where
  "strip_prefix [] s = Some s"
| "strip_prefix (p # ps) [] = None"
| "strip_prefix (p # ps) (c # s) = (if p = c then strip_prefix ps s else None)"

lemma strip_prefix_Some_iff: "strip_prefix p s = Some r \<longleftrightarrow> s = p @ r"
  by (induction p s rule: strip_prefix.induct) auto

lemma strip_prefix_append [simp]: "strip_prefix p (p @ r) = Some r"
  by (simp add: strip_prefix_Some_iff)

lemma strip_prefix_None_iff: "strip_prefix p s = None \<longleftrightarrow> \<not> prefix p s"
  by (metis strip_prefix_Some_iff option.exhaust option.distinct(1) prefix_def)

lemma strip_prefix_line:
  "d \<notin> set p \<Longrightarrow> strip_prefix p (a @ d # s) = map_option (\<lambda>r. r @ d # s) (strip_prefix p a)"
  by (induction p a rule: strip_prefix.induct) auto

definition ends_with :: "string \<Rightarrow> string \<Rightarrow> bool" where
  "ends_with s p \<longleftrightarrow> strip_prefix (rev p) (rev s) \<noteq> None"

fun contains :: "string \<Rightarrow> string \<Rightarrow> bool" where
  "contains [] p = (p = [])"
| "contains (c # s) p = (strip_prefix p (c # s) \<noteq> None \<or> contains s p)"

lemma ends_with_iff: "ends_with s p \<longleftrightarrow> suffix p s"
  by (simp add: ends_with_def strip_prefix_None_iff suffix_to_prefix)

lemma contains_iff: "contains s p \<longleftrightarrow> sublist p s"
  by (induction s) (auto simp: strip_prefix_None_iff sublist_Cons_right)

section \<open>Splitting at a character\<close>

fun split_once :: "char \<Rightarrow> string \<Rightarrow> (string \<times> string) option" where
  "split_once d [] = None"
| "split_once d (c # s) =
     (if c = d then Some ([], s)
      else case split_once d s of None \<Rightarrow> None | Some (a, b) \<Rightarrow> Some (c # a, b))"

fun split_char :: "char \<Rightarrow> string \<Rightarrow> string list" where
  "split_char d [] = [[]]"
| "split_char d (c # s) =
     (if c = d then [] # split_char d s
      else case split_char d s of [] \<Rightarrow> [[c]] | a # as \<Rightarrow> (c # a) # as)"

lemma split_once_append [fresh_simps]: "d \<notin> set a \<Longrightarrow> split_once d (a @ d # b) = Some (a, b)"
  by (induction a) auto

lemma split_once_None [fresh_simps]: "d \<notin> set s \<Longrightarrow> split_once d s = None"
  by (induction s) auto

lemma split_char_nonempty [simp]: "split_char d s \<noteq> []"
  by (induction s) (auto split: list.splits)

lemma split_char_none [fresh_simps]: "d \<notin> set s \<Longrightarrow> split_char d s = [s]"
  by (induction s) auto

lemma split_char_append [fresh_simps]:
  "d \<notin> set a \<Longrightarrow> split_char d (a @ d # s) = a # split_char d s"
  by (induction a) auto

text \<open>\<open>split_inclusive\<close> keeps the separator and yields no empty last piece.\<close>

fun split_inclusive :: "char \<Rightarrow> string \<Rightarrow> string list" where
  "split_inclusive d [] = []"
| "split_inclusive d (c # s) =
     (if c = d then [c] # split_inclusive d s
      else case split_inclusive d s of [] \<Rightarrow> [[c]] | a # as \<Rightarrow> (c # a) # as)"

abbreviation newline :: char where "newline \<equiv> CHR 0x0A"
abbreviation carriage_return :: char where "carriage_return \<equiv> CHR 0x0D"

definition strip_suffix_char :: "char \<Rightarrow> string \<Rightarrow> string option" where
  "strip_suffix_char d s = (if s \<noteq> [] \<and> last s = d then Some (butlast s) else None)"

text \<open>One piece of \<open>split_inclusive('\n')\<close> without its line ending, as \<open>str::lines\<close> does it.\<close>

definition strip_line_end :: "string \<Rightarrow> string" where
  "strip_line_end l =
     (case strip_suffix_char newline l of
        None \<Rightarrow> l
      | Some l' \<Rightarrow> (case strip_suffix_char carriage_return l' of None \<Rightarrow> l' | Some l'' \<Rightarrow> l''))"

definition lines :: "string \<Rightarrow> string list" where
  "lines s = map strip_line_end (split_inclusive newline s)"

lemma split_inclusive_append [fresh_simps]:
  "d \<notin> set a \<Longrightarrow> split_inclusive d (a @ d # s) = (a @ [d]) # split_inclusive d s"
  by (induction a) auto

lemma lines_Nil [simp]: "lines [] = []"
  by (simp add: lines_def)

lemma lines_Cons:
  assumes "newline \<notin> set a" "a = [] \<or> last a \<noteq> carriage_return"
  shows "lines (a @ newline # s) = a # lines s"
  using assms
  by (auto simp: lines_def fresh_simps strip_line_end_def strip_suffix_char_def)

section \<open>White space\<close>

definition white_space :: "string list" where
  "white_space =
     [[CHR 0x09], [CHR 0x0A], [CHR 0x0B], [CHR 0x0C], [CHR 0x0D], [CHR 0x20],
      [CHR 0xC2, CHR 0x85], [CHR 0xC2, CHR 0xA0], [CHR 0xE1, CHR 0x9A, CHR 0x80],
      [CHR 0xE2, CHR 0x80, CHR 0x80], [CHR 0xE2, CHR 0x80, CHR 0x81],
      [CHR 0xE2, CHR 0x80, CHR 0x82], [CHR 0xE2, CHR 0x80, CHR 0x83],
      [CHR 0xE2, CHR 0x80, CHR 0x84], [CHR 0xE2, CHR 0x80, CHR 0x85],
      [CHR 0xE2, CHR 0x80, CHR 0x86], [CHR 0xE2, CHR 0x80, CHR 0x87],
      [CHR 0xE2, CHR 0x80, CHR 0x88], [CHR 0xE2, CHR 0x80, CHR 0x89],
      [CHR 0xE2, CHR 0x80, CHR 0x8A], [CHR 0xE2, CHR 0x80, CHR 0xA8],
      [CHR 0xE2, CHR 0x80, CHR 0xA9], [CHR 0xE2, CHR 0x80, CHR 0xAF],
      [CHR 0xE2, CHR 0x81, CHR 0x9F], [CHR 0xE3, CHR 0x80, CHR 0x80]]"

text \<open>The rest of \<open>s\<close> after one of the non-empty strings \<open>ws\<close> at its front.\<close>

definition strip_any :: "string list \<Rightarrow> string \<Rightarrow> string option" where
  "strip_any ws s = find_map (\<lambda>w. if w = [] then None else strip_prefix w s) ws"

lemma strip_any_shorter: "strip_any ws s = Some r \<Longrightarrow> length r < length s"
  by (auto simp: strip_any_def strip_prefix_Some_iff dest!: find_map_SomeD split: if_splits)

lemma strip_any_Nil [simp]: "strip_any ws [] = None"
  by (auto simp: strip_any_def find_map_None_iff strip_prefix_None_iff)

function trim_any :: "string list \<Rightarrow> string \<Rightarrow> string" where
  "trim_any ws s = (case strip_any ws s of None \<Rightarrow> s | Some s' \<Rightarrow> trim_any ws s')"
  by pat_completeness auto
termination
  by (relation "measure (\<lambda>(ws, s). length s)") (auto dest: strip_any_shorter)

declare trim_any.simps [simp del]

definition trim_start :: "string \<Rightarrow> string" where
  "trim_start s = trim_any white_space s"

definition trim_end :: "string \<Rightarrow> string" where
  "trim_end s = rev (trim_any (map rev white_space) (rev s))"

definition trim :: "string \<Rightarrow> string" where
  "trim s = trim_end (trim_start s)"

text \<open>\<open>s.split(char::is_whitespace)\<close>, the piece read so far in \<open>cur\<close>, reversed.\<close>

function split_ws :: "string \<Rightarrow> string \<Rightarrow> string list" where
  "split_ws cur s =
     (case strip_any white_space s of
        Some s' \<Rightarrow> rev cur # split_ws [] s'
      | None \<Rightarrow> (case s of [] \<Rightarrow> [rev cur] | c # s' \<Rightarrow> split_ws (c # cur) s'))"
  by pat_completeness auto
termination
  by (relation "measure (\<lambda>(cur, s). length s)") (auto dest: strip_any_shorter)

declare split_ws.simps [simp del]

definition split_whitespace :: "string \<Rightarrow> string list" where
  "split_whitespace s = filter (\<lambda>w. w \<noteq> []) (split_ws [] s)"

text \<open>\<open>iter.next_back()\<close> of a double-ended iterator over a list.\<close>

definition next_back :: "'a list \<Rightarrow> 'a option" where
  "next_back xs = (if xs = [] then None else Some (last xs))"

text \<open>Printable ASCII other than the blank: no part of a white space sequence.\<close>

definition graphic :: "char \<Rightarrow> bool" where
  "graphic c \<longleftrightarrow> 0x21 \<le> (of_char c :: nat) \<and> of_char c \<le> (0x7E :: nat)"

lemma strip_any_other_head:
  "c \<notin> set (map hd ws) \<Longrightarrow> strip_any ws (c # s) = None"
  by (force simp: strip_any_def find_map_None_iff strip_prefix_None_iff prefix_Cons neq_Nil_conv)

lemma graphic_not_ws_head [fresh_simps]:
  "graphic c \<Longrightarrow> strip_any white_space (c # s) = None"
  by (rule strip_any_other_head) (auto simp: white_space_def graphic_def)

lemma graphic_not_ws_last [fresh_simps]:
  "graphic c \<Longrightarrow> strip_any (map rev white_space) (c # s) = None"
  by (rule strip_any_other_head) (auto simp: white_space_def graphic_def)

lemma strip_blank [fresh_simps]: "strip_any white_space (CHR '' '' # s) = Some s"
  by (simp add: strip_any_def white_space_def)

lemma strip_tab [fresh_simps]: "strip_any white_space (CHR 0x09 # s) = Some s"
  by (simp add: strip_any_def white_space_def)

lemma trim_start_graphic: "graphic c \<Longrightarrow> trim_start (c # s) = c # s"
  by (simp add: trim_start_def trim_any.simps [of _ "c # s"] fresh_simps)

lemma trim_start_tab: "trim_start (CHR 0x09 # s) = trim_start s"
  by (simp add: trim_start_def trim_any.simps [of _ "CHR 0x09 # s"] fresh_simps)

lemma trim_start_Nil [simp]: "trim_start [] = []"
  by (simp add: trim_start_def trim_any.simps)

lemma trim_end_graphic: "graphic c \<Longrightarrow> trim_end (s @ [c]) = s @ [c]"
  by (simp add: trim_end_def trim_any.simps [of _ "c # rev s"] fresh_simps)

lemma trim_end_Nil [simp]: "trim_end [] = []"
  by (simp add: trim_end_def trim_any.simps)

lemma suffix_trim_any: "suffix (trim_any ws s) s"
proof (induction ws s rule: trim_any.induct)
  case (1 ws s)
  show ?case
  proof (cases "strip_any ws s")
    case None
    then show ?thesis by (simp add: trim_any.simps [of ws s])
  next
    case (Some r)
    then have "suffix r s"
      by (auto simp: strip_any_def strip_prefix_Some_iff suffix_def dest!: find_map_SomeD split: if_splits)
    with 1 Some show ?thesis by (auto simp: trim_any.simps [of ws s] intro: suffix_order.trans)
  qed
qed

lemma prefix_trim_end: "prefix (trim_end s) s"
  using suffix_trim_any [of "map rev white_space" "rev s"] by (simp add: trim_end_def suffix_to_prefix)

lemma trim_graphic_ends:
  assumes "s \<noteq> []" "graphic (hd s)" "graphic (last s)"
  shows "trim s = s"
proof -
  from assms have s: "s = hd s # tl s" and l: "s = butlast s @ [last s]" by simp_all
  have "trim_start s = s" using trim_start_graphic [OF assms(2), of "tl s"] s by simp
  moreover have "trim_end s = s" using trim_end_graphic [OF assms(3), of "butlast s"] l by simp
  ultimately show ?thesis by (simp add: trim_def)
qed

lemma trim_Nil [simp]: "trim [] = []"
  by (simp add: trim_def)

lemma trim_tab: "trim (CHR 0x09 # s) = trim s"
  by (simp add: trim_def trim_start_tab)

lemma split_ws_graphic:
  "\<forall>c \<in> set w. graphic c \<Longrightarrow> split_ws cur w = [rev cur @ w]"
  by (induction w arbitrary: cur) (simp_all add: split_ws.simps fresh_simps)

lemma blank_ends_white_space: "v \<in> set white_space \<Longrightarrow> CHR '' '' \<notin> set (tl v)"
  by (auto simp: white_space_def)

lemma strip_any_before_blank:
  assumes "strip_any white_space (s @ CHR '' '' # w) = Some r" "s \<noteq> []"
  shows "\<exists>r'. r = r' @ CHR '' '' # w \<and> length r' < length s"
proof -
  from assms(1) obtain v where v: "v \<in> set white_space" "v \<noteq> []" "s @ CHR '' '' # w = v @ r"
    by (auto simp: strip_any_def strip_prefix_Some_iff dest!: find_map_SomeD split: if_splits)
  from v(3) obtain us where "(s = v @ us \<and> us @ CHR '' '' # w = r) \<or> (s @ us = v \<and> CHR '' '' # w = us @ r)"
    by (auto simp: append_eq_append_conv2)
  then show ?thesis
  proof (elim disjE conjE)
    assume "s = v @ us" "us @ CHR '' '' # w = r"
    with v(2) show ?thesis by (intro exI [of _ us]) auto
  next
    assume us: "s @ us = v" "CHR '' '' # w = us @ r"
    with blank_ends_white_space [OF v(1)] assms(2) have "us = []" by (cases us) auto
    with us assms(2) show ?thesis by (intro exI [of _ "[]"]) auto
  qed
qed

lemma split_ws_nonempty [simp]: "split_ws cs t \<noteq> []"
  by (induction cs t rule: split_ws.induct) (subst split_ws.simps, simp split: option.split list.split)

text \<open>The last word of a declaration that ends in a blank and a word.\<close>

lemma last_split_ws:
  assumes w: "\<forall>c \<in> set w. graphic c"
  shows "last (split_ws cur (s @ CHR '' '' # w)) = w"
proof (induction "length s" arbitrary: cur s rule: less_induct)
  case less
  show ?case
  proof (cases s)
    case Nil
    with w show ?thesis
      by (simp add: split_ws.simps [of cur "CHR '' '' # w"] fresh_simps split_ws_graphic)
  next
    case (Cons c s')
    show ?thesis
    proof (cases "strip_any white_space (s @ CHR '' '' # w)")
      case None
      with Cons less [of s' "c # cur"] show ?thesis
        by (simp add: split_ws.simps [of cur "c # s' @ CHR '' '' # w"])
    next
      case (Some r)
      with strip_any_before_blank [OF this] Cons obtain r'
        where r': "r = r' @ CHR '' '' # w" "length r' < length s" by auto
      from Some Cons have "split_ws cur (s @ CHR '' '' # w) = rev cur # split_ws [] r"
        by (simp add: split_ws.simps [of cur "c # s' @ CHR '' '' # w"])
      with less [OF r'(2)] r'(1) show ?thesis by simp
    qed
  qed
qed

lemma next_back_split_whitespace:
  assumes "\<forall>c \<in> set w. graphic c" "w \<noteq> []"
  shows "next_back (split_whitespace (s @ CHR '' '' # w)) = Some w"
proof -
  obtain ps where "split_ws [] (s @ CHR '' '' # w) = ps @ [w]"
    using last_split_ws [OF assms(1), of "[]" s] by (metis append_butlast_last_id split_ws_nonempty)
  with assms(2) show ?thesis by (simp add: split_whitespace_def next_back_def)
qed

section \<open>Decimal numbers\<close>

text \<open>\<open>char::to_digit(10)\<close>.\<close>

definition to_digit :: "char \<Rightarrow> nat option" where
  "to_digit c = (let n = of_char c in if 48 \<le> n \<and> n \<le> 57 then Some (n - 48) else None)"

text \<open>
  \<open>s.parse::<uN>().ok()\<close>: an optional plus sign, then at least one digit; a digit that is
  none, or a value that does not fit into \<open>bits\<close> bits, is an error.
\<close>

fun parse_digits :: "nat \<Rightarrow> nat \<Rightarrow> string \<Rightarrow> nat option" where
  "parse_digits bits acc [] = Some acc"
| "parse_digits bits acc (c # s) =
     (case to_digit c of
        None \<Rightarrow> None
      | Some d \<Rightarrow> if acc * 10 + d < 2 ^ bits then parse_digits bits (acc * 10 + d) s else None)"

definition parse_uint :: "nat \<Rightarrow> string \<Rightarrow> nat option" where
  "parse_uint bits s =
     (let digits = (case s of c # r \<Rightarrow> if c = CHR ''+'' then r else s | [] \<Rightarrow> [])
      in if digits = [] then None else parse_digits bits 0 digits)"

text \<open>\<open>to_string\<close> and \<open>{}\<close> of an unsigned integer.\<close>

definition digit_char :: "nat \<Rightarrow> char" where
  "digit_char d = char_of (48 + d)"

fun show_nat :: "nat \<Rightarrow> string" where
  "show_nat n = (if n < 10 then [digit_char n] else show_nat (n div 10) @ [digit_char (n mod 10)])"

declare show_nat.simps [simp del]

lemma of_digit_char: "d < 10 \<Longrightarrow> of_char (digit_char d) = 48 + d"
  by (simp add: digit_char_def)

lemma to_digit_char [simp]: "d < 10 \<Longrightarrow> to_digit (digit_char d) = Some d"
  by (simp add: to_digit_def of_digit_char)

lemma show_nat_nonempty [simp]: "show_nat n \<noteq> []"
  by (subst show_nat.simps) simp

lemma show_nat_digits: "c \<in> set (show_nat n) \<Longrightarrow> \<exists>d < 10. c = digit_char d"
proof (induction n rule: show_nat.induct)
  case (1 n)
  show ?case
  proof (cases "n < 10 \<or> c \<notin> set (show_nat (n div 10))")
    case True
    with 1(2) have "c = digit_char (n mod 10)" by (auto simp: show_nat.simps [of n] split: if_splits)
    then show ?thesis by (intro exI [of _ "n mod 10"]) simp
  next
    case False
    with 1(1) show ?thesis by simp
  qed
qed

lemma digit_char_range: "d < 10 \<Longrightarrow> 48 \<le> (of_char (digit_char d) :: nat) \<and> of_char (digit_char d) \<le> (57 :: nat)"
  by (simp add: of_digit_char)

lemma show_nat_range:
  "c \<in> set (show_nat n) \<Longrightarrow> 48 \<le> (of_char c :: nat) \<and> of_char c \<le> (57 :: nat)"
  using show_nat_digits digit_char_range by blast

lemma show_nat_graphic: "c \<in> set (show_nat n) \<Longrightarrow> graphic c"
  using show_nat_range by (fastforce simp: graphic_def)

lemma show_nat_fresh:
  "\<not> (48 \<le> (of_char c :: nat) \<and> of_char c \<le> (57 :: nat)) \<Longrightarrow> c \<notin> set (show_nat n)"
  using show_nat_range by blast

lemma parse_digits_append:
  "parse_digits b acc (s @ t) =
     (case parse_digits b acc s of None \<Rightarrow> None | Some acc' \<Rightarrow> parse_digits b acc' t)"
  by (induction s arbitrary: acc) (auto split: option.splits)

lemma parse_digits_show:
  "n < 2 ^ b \<Longrightarrow> parse_digits b 0 (show_nat n) = Some n"
proof (induction n rule: show_nat.induct)
  case (1 n)
  show ?case
  proof (cases "n < 10")
    case True
    with 1 show ?thesis by (simp add: show_nat.simps [of n])
  next
    case False
    from 1(2) have "n div 10 < 2 ^ b" by linarith
    with 1 False have "parse_digits b 0 (show_nat (n div 10)) = Some (n div 10)" by simp
    moreover have "n div 10 * 10 + n mod 10 = n" by simp
    ultimately show ?thesis using False 1(2)
      by (simp add: show_nat.simps [of n] parse_digits_append)
  qed
qed

lemma parse_show_nat: "n < 2 ^ b \<Longrightarrow> parse_uint b (show_nat n) = Some n"
proof -
  assume n: "n < 2 ^ b"
  have "show_nat n = c # r \<Longrightarrow> c \<noteq> CHR ''+''" for c r
    using show_nat_range [of c n] by auto
  with n show ?thesis
    using parse_digits_show [OF n]
    by (cases "show_nat n") (simp_all add: parse_uint_def del: parse_digits.simps)
qed

lemma parse_digits_bound: "parse_digits b acc s = Some n \<Longrightarrow> acc < 2 ^ b \<Longrightarrow> n < 2 ^ b"
  by (induction s arbitrary: acc) (auto split: option.splits if_splits)

lemma parse_uint_bound: "parse_uint b s = Some n \<Longrightarrow> n < 2 ^ b"
  by (auto simp: parse_uint_def Let_def simp del: parse_digits.simps
      split: if_splits list.splits dest: parse_digits_bound)

section \<open>I/O errors\<close>

text \<open>An \<open>io::Error\<close>: its kind, as far as the code looks at it, and its message.\<close>

datatype io_error = NotFound_Error string | Other_Error string

fun io_error_message :: "io_error \<Rightarrow> string" where
  "io_error_message (NotFound_Error m) = m"
| "io_error_message (Other_Error m) = m"

type_synonym file_reader = "string \<Rightarrow> io_error + string" \<comment> \<open>\<open>fs::read_to_string\<close>\<close>

end
