(* ===== verification/Tracepoint.thy ===== *)
theory Tracepoint
  imports Layout Rust_Str "HOL-Library.Monad_Syntax"
begin

text \<open>
  \<open>oom-watcher/src/tracepoint.rs\<close>: the startup check of the kernel's trace-entry layout.
  \<open>parse_format\<close> and \<open>check_layout\<close> are pure and modelled as they are; \<open>read_format\<close> takes
  the file system as a parameter, a function from paths to a read result. A \<open>usize\<close> that the
  parser returns is a \<open>nat\<close> below \<open>2 ^ 64\<close>.
\<close>

section \<open>The layout the probe decodes\<close>

definition FORMAT_PATHS :: "string list" where
  "FORMAT_PATHS =
     [''/sys/kernel/tracing/events/oom/mark_victim/format'',
      ''/sys/kernel/debug/tracing/events/oom/mark_victim/format'']"

record field =
  fl_name :: string
  fl_offset :: nat
  fl_size :: nat

definition Field_new :: "string \<Rightarrow> nat \<Rightarrow> nat \<Rightarrow> field" where
  "Field_new name offset sz = \<lparr>fl_name = name, fl_offset = offset, fl_size = sz\<rparr>"

definition REQUIRED_FIELDS :: "field list" where
  "REQUIRED_FIELDS =
     [Field_new ''pid'' 8 4, Field_new ''comm'' 12 4, Field_new ''total_vm'' 16 8,
      Field_new ''anon_rss'' 24 8, Field_new ''file_rss'' 32 8, Field_new ''shmem_rss'' 40 8,
      Field_new ''uid'' 48 4, Field_new ''pgtables'' 56 8, Field_new ''oom_score_adj'' 64 2]"

datatype mismatch =
    Missing string
  | Moved string "nat \<times> nat" "nat \<times> nat" \<comment> \<open>name, expected, found\<close>

text \<open>\<open>impl Display for Mismatch\<close>.\<close>

fun mismatch_to_string :: "mismatch \<Rightarrow> string" where
  "mismatch_to_string (Missing name) = ''  '' @ name @ '': missing''"
| "mismatch_to_string (Moved name (eo, es) (fo, fs)) =
     ''  '' @ name @ '': expected offset '' @ show_nat eo @ '' size '' @ show_nat es
       @ '', found offset '' @ show_nat fo @ '' size '' @ show_nat fs"

section \<open>Parsing a format file\<close>

text \<open>\<open>attr\<close>: the value of the first \<open>key:number\<close> part.\<close>

definition attr_part :: "string \<Rightarrow> string \<Rightarrow> nat option" where
  "attr_part key part =
     do {
       r \<leftarrow> strip_prefix key (trim part);
       v \<leftarrow> strip_prefix '':'' r;
       parse_uint 64 (trim v)
     }"

definition attr :: "string \<Rightarrow> string \<Rightarrow> nat option" where
  "attr attrs key = find_map (attr_part key) (split_char CHR '';'' attrs)"

definition parse_line :: "string \<Rightarrow> (string \<times> nat \<times> nat) option" where
  "parse_line line =
     do {
       rest \<leftarrow> strip_prefix ''field:'' (trim line);
       (decl, attrs) \<leftarrow> split_once CHR '';'' rest;
       word \<leftarrow> next_back (split_whitespace decl);
       let name = dropWhile (\<lambda>c. c = CHR ''*'') (hd (split_char CHR ''['' word));
       (if name = [] then None
        else do {
          offset \<leftarrow> attr attrs ''offset'';
          sz \<leftarrow> attr attrs ''size'';
          Some (name, offset, sz)
        })
     }"

definition parse_format :: "string \<Rightarrow> layout" where
  "parse_format text = List.map_filter parse_line (lines text)"

section \<open>Checking the layout\<close>

definition check_field :: "layout \<Rightarrow> field \<Rightarrow> mismatch option" where
  "check_field found want =
     (case layout_find found (fl_name want) of
        None \<Rightarrow> Some (Missing (fl_name want))
      | Some (offset, sz) \<Rightarrow>
          if (offset, sz) \<noteq> (fl_offset want, fl_size want)
          then Some (Moved (fl_name want) (fl_offset want, fl_size want) (offset, sz))
          else None)"

definition check_layout :: "string \<Rightarrow> mismatch list" where
  "check_layout text =
     (let found = parse_format text in List.map_filter (check_field found) REQUIRED_FIELDS)"

section \<open>Reading it and refusing to start\<close>

text \<open>The first path that can be read; otherwise the error of the last one tried.\<close>

fun read_format_from :: "file_reader \<Rightarrow> string list \<Rightarrow> (string \<times> io_error) option \<Rightarrow>
    (string \<times> io_error) option + string" where
  "read_format_from fs [] last_err = Inl last_err"
| "read_format_from fs (path # paths) last_err =
     (case fs path of
        Inr text \<Rightarrow> Inr text
      | Inl e \<Rightarrow> read_format_from fs paths (Some (path, e)))"

definition unreadable_message :: "string \<Rightarrow> io_error \<Rightarrow> string" where
  "unreadable_message path err =
     ''could not read the oom:mark_victim tracepoint format ('' @ path @ '': ''
       @ io_error_message err @ '').'' @ [newline]
       @ ''Mount tracefs and make it visible to this container '' @ [CHR 0xE2, CHR 0x80, CHR 0x94]
       @ '' the DaemonSet mounts ''
       @ ''/sys and /sys/kernel/debug for exactly this.''"

text \<open>\<open>last_err.expect\<close> cannot panic: \<open>read_format_no_panic\<close> below.\<close>

definition read_format :: "file_reader \<Rightarrow> string + string" where
  "read_format fs =
     (case read_format_from fs FORMAT_PATHS None of
        Inr text \<Rightarrow> Inr text
      | Inl (Some (path, err)) \<Rightarrow> Inl (unreadable_message path err)
      | Inl None \<Rightarrow> Inl ''panic: FORMAT_PATHS is non-empty'')"

fun join :: "string \<Rightarrow> string list \<Rightarrow> string" where
  "join sep [] = []"
| "join sep [s] = s"
| "join sep (s # ss) = s @ sep @ join sep ss"

fun is_missing :: "mismatch \<Rightarrow> bool" where
  "is_missing (Missing name) = True"
| "is_missing (Moved name e f) = False"

definition pre_6_9_hint :: string where
  "pre_6_9_hint =
     ''This is the pre-6.9 tracepoint, which carries only `pid`. The extended fields ''
       @ ''landed in Linux 6.9; this node needs a 6.9+ kernel.''"

definition changed_hint :: string where
  "changed_hint =
     ''The tracepoint layout has changed. MarkVictimArgs in oom-watcher-ebpf and ''
       @ ''REQUIRED_FIELDS here both need updating for this kernel.''"

definition mismatch_message :: "mismatch list \<Rightarrow> string" where
  "mismatch_message mismatches =
     ''the oom:mark_victim tracepoint on this kernel does not match the layout this ''
       @ ''probe decodes:'' @ [newline] @ join [newline] (map mismatch_to_string mismatches)
       @ [newline, newline]
       @ (if list_all is_missing mismatches then pre_6_9_hint else changed_hint) @ [newline]
       @ ''Refusing to start: attaching anyway would report correct PIDs alongside ''
       @ ''meaningless memory figures.''"

definition verify_kernel_layout :: "file_reader \<Rightarrow> string + unit" where
  "verify_kernel_layout fs =
     (case read_format fs of
        Inl e \<Rightarrow> Inl e
      | Inr text \<Rightarrow>
          let mismatches = check_layout text in
          if mismatches = [] then Inr () else Inl (mismatch_message mismatches))"

section \<open>How the kernel prints a field\<close>

text \<open>
  One line of a format file, as the test data and the comment of \<open>parse_format\<close> show it: a
  tab, the declaration (type, blank, name, array suffix) and the three attributes.
\<close>

record format_field =
  ff_type :: string
  ff_name :: string
  ff_array :: string
  ff_offset :: nat
  ff_size :: nat
  ff_signed :: nat

abbreviation tab :: char where "tab \<equiv> CHR 0x09"

definition render_attr :: "string \<Rightarrow> nat \<Rightarrow> string" where
  "render_attr key n = tab # key @ '':'' @ show_nat n"

definition render_field :: "format_field \<Rightarrow> string" where
  "render_field f =
     tab # ''field:'' @ ff_type f @ '' '' @ ff_name f @ ff_array f @ '';''
       @ render_attr ''offset'' (ff_offset f) @ '';'' @ render_attr ''size'' (ff_size f) @ '';''
       @ render_attr ''signed'' (ff_signed f) @ '';''"

definition render_format :: "format_field list \<Rightarrow> string" where
  "render_format fs = concat (map (\<lambda>f. render_field f @ [newline]) fs)"

text \<open>
  What the kernel's declarations look like: a non-empty identifier as the name, no semicolon
  or newline in the type, and an array suffix that starts with a bracket and has no blank.
\<close>

definition format_field_ok :: "format_field \<Rightarrow> bool" where
  "format_field_ok f \<longleftrightarrow>
     ff_name f \<noteq> [] \<and> list_all (\<lambda>c. graphic c \<and> c \<notin> set '';[*'') (ff_name f)
     \<and> CHR '';'' \<notin> set (ff_type f) \<and> newline \<notin> set (ff_type f)
     \<and> (ff_array f = [] \<or> hd (ff_array f) = CHR ''['')
     \<and> list_all (\<lambda>c. graphic c \<and> c \<noteq> CHR '';'') (ff_array f)
     \<and> ff_offset f < 2 ^ 64 \<and> ff_size f < 2 ^ 64"

definition format_entry :: "format_field \<Rightarrow> string \<times> nat \<times> nat" where
  "format_entry f = (ff_name f, ff_offset f, ff_size f)"

lemma digit_fresh [simp]:
  "CHR '';'' \<notin> set (show_nat n)" "newline \<notin> set (show_nat n)" "CHR '':'' \<notin> set (show_nat n)"
  by (rule show_nat_fresh, simp)+

lemma show_nat_ends [simp]: "graphic (hd (show_nat n))" "graphic (last (show_nat n))"
  by (rule show_nat_graphic, rule list.set_sel, simp) (rule show_nat_graphic, rule last_in_set, simp)

lemma trim_show_nat [simp]: "trim (show_nat n) = show_nat n"
  by (rule trim_graphic_ends) simp_all

lemma trim_attr:
  assumes "key \<noteq> []" "graphic (hd key)"
  shows "trim (render_attr key n) = key @ '':'' @ show_nat n"
proof -
  have "graphic (last (key @ '':'' @ show_nat n))" by simp
  with assms have "trim (key @ '':'' @ show_nat n) = key @ '':'' @ show_nat n"
    by (intro trim_graphic_ends) auto
  then show ?thesis by (simp add: render_attr_def trim_tab)
qed

lemma attr_part_same:
  "key \<noteq> [] \<Longrightarrow> graphic (hd key) \<Longrightarrow> n < 2 ^ 64 \<Longrightarrow> attr_part key (render_attr key n) = Some n"
  by (simp add: attr_part_def trim_attr parse_show_nat)

lemma attr_part_other:
  "key \<noteq> [] \<Longrightarrow> graphic (hd key) \<Longrightarrow> hd key \<noteq> hd key' \<Longrightarrow> key' \<noteq> [] \<Longrightarrow>
    attr_part key' (render_attr key n) = None"
  by (cases key; cases key') (simp_all add: attr_part_def trim_attr)

definition attr_run :: "format_field \<Rightarrow> string" where
  "attr_run f =
     render_attr ''offset'' (ff_offset f) @ '';'' @ render_attr ''size'' (ff_size f) @ '';''
       @ render_attr ''signed'' (ff_signed f) @ '';''"

lemma split_attr_run:
  "split_char CHR '';'' (attr_run f) =
     [render_attr ''offset'' (ff_offset f), render_attr ''size'' (ff_size f),
      render_attr ''signed'' (ff_signed f), []]"
  by (simp add: attr_run_def render_attr_def fresh_simps)

lemma attrs_of_run:
  assumes "ff_offset f < 2 ^ 64" "ff_size f < 2 ^ 64"
  shows "attr (attr_run f) ''offset'' = Some (ff_offset f)"
    and "attr (attr_run f) ''size'' = Some (ff_size f)"
  using assms
  by (simp_all add: attr_def split_attr_run attr_part_same attr_part_other graphic_def)

lemma list_all_graphic: "list_all (\<lambda>c. graphic c \<and> P c) s \<Longrightarrow> \<forall>c \<in> set s. graphic c"
  by (auto simp: list_all_iff)

lemma decl_word:
  assumes "format_field_ok f"
  shows "next_back (split_whitespace (ff_type f @ '' '' @ ff_name f @ ff_array f))
           = Some (ff_name f @ ff_array f)"
    and "hd (split_char CHR ''['' (ff_name f @ ff_array f)) = ff_name f"
    and "dropWhile (\<lambda>c. c = CHR ''*'') (ff_name f) = ff_name f"
    and "CHR '';'' \<notin> set (ff_type f @ '' '' @ ff_name f @ ff_array f)"
proof -
  from assms have n: "list_all (\<lambda>c. graphic c \<and> c \<notin> set '';[*'') (ff_name f)" "ff_name f \<noteq> []"
    and a: "ff_array f = [] \<or> hd (ff_array f) = CHR ''[''"
      "list_all (\<lambda>c. graphic c \<and> c \<noteq> CHR '';'') (ff_array f)"
    and t: "CHR '';'' \<notin> set (ff_type f)"
    unfolding format_field_ok_def by blast+
  have "\<forall>c \<in> set (ff_name f @ ff_array f). graphic c"
    using list_all_graphic [OF n(1)] list_all_graphic [OF a(2)] by auto
  from next_back_split_whitespace [OF this, of "ff_type f"] n(2)
  show "next_back (split_whitespace (ff_type f @ '' '' @ ff_name f @ ff_array f))
          = Some (ff_name f @ ff_array f)" by simp
  from n(1) have fresh: "CHR ''['' \<notin> set (ff_name f)" "CHR '';'' \<notin> set (ff_name f)"
    "CHR ''*'' \<notin> set (ff_name f)" by (auto simp: list_all_iff)
  with a(1) show "hd (split_char CHR ''['' (ff_name f @ ff_array f)) = ff_name f"
    by (cases "ff_array f") (auto simp: fresh_simps)
  show "dropWhile (\<lambda>c. c = CHR ''*'') (ff_name f) = ff_name f"
    using fresh(3) by (cases "ff_name f") auto
  from fresh a(2) t show "CHR '';'' \<notin> set (ff_type f @ '' '' @ ff_name f @ ff_array f)"
    by (auto simp: list_all_iff)
qed

lemma render_field_eq:
  "render_field f =
     tab # ''field:'' @ (ff_type f @ '' '' @ ff_name f @ ff_array f) @ CHR '';'' # attr_run f"
  by (simp add: render_field_def attr_run_def)

lemma trim_render_field: "trim (render_field f) = tl (render_field f)"
proof -
  have "last (tl (render_field f)) = CHR '';''" by (simp add: render_field_eq attr_run_def)
  then have "trim (tl (render_field f)) = tl (render_field f)"
    by (intro trim_graphic_ends) (simp_all add: render_field_eq graphic_def)
  then show ?thesis by (simp add: render_field_eq trim_tab)
qed

lemma parse_line_render:
  assumes "format_field_ok f"
  shows "parse_line (render_field f) = Some (format_entry f)"
proof -
  let ?decl = "ff_type f @ '' '' @ ff_name f @ ff_array f"
  note decl = decl_word [OF assms]
  have bounds: "ff_offset f < 2 ^ 64" "ff_size f < 2 ^ 64" "ff_name f \<noteq> []"
    using assms unfolding format_field_ok_def by blast+
  have "tl (render_field f) = ''field:'' @ (?decl @ CHR '';'' # attr_run f)"
    by (simp add: render_field_eq)
  then have field: "strip_prefix ''field:'' (trim (render_field f)) = Some (?decl @ CHR '';'' # attr_run f)"
    unfolding trim_render_field by (simp only: strip_prefix_append)
  have split: "split_once CHR '';'' (?decl @ CHR '';'' # attr_run f) = Some (?decl, attr_run f)"
    using decl(4) by (rule split_once_append)
  show ?thesis
    unfolding parse_line_def field Option.bind.simps split prod.case decl(1-3) Let_def
    using bounds by (simp add: decl(2,3) attrs_of_run format_entry_def)
qed

text \<open>A whole file: field lines, and lines of any other kind.\<close>

datatype format_line = Field_Line format_field | Other_Line string

fun render_line :: "format_line \<Rightarrow> string" where
  "render_line (Field_Line f) = render_field f"
| "render_line (Other_Line s) = s"

definition render_lines :: "format_line list \<Rightarrow> string" where
  "render_lines ls = concat (map (\<lambda>l. render_line l @ [newline]) ls)"

fun format_line_ok :: "format_line \<Rightarrow> bool" where
  "format_line_ok (Field_Line f) = format_field_ok f"
| "format_line_ok (Other_Line s) =
     (newline \<notin> set s \<and> (s = [] \<or> last s \<noteq> carriage_return)
      \<and> strip_prefix ''field:'' (trim s) = None)"

fun line_entry :: "format_line \<Rightarrow> (string \<times> nat \<times> nat) option" where
  "line_entry (Field_Line f) = Some (format_entry f)"
| "line_entry (Other_Line s) = None"

lemma newline_not_graphic: "\<not> graphic newline"
  by (simp add: graphic_def)

lemma render_line_fresh:
  assumes "format_line_ok l"
  shows "newline \<notin> set (render_line l)" "render_line l = [] \<or> last (render_line l) \<noteq> carriage_return"
proof -
  have "newline \<notin> set (render_field f)" if "format_field_ok f" for f
    using that newline_not_graphic
    by (auto simp: format_field_ok_def list_all_iff render_field_eq attr_run_def render_attr_def)
  with assms show "newline \<notin> set (render_line l)" by (cases l) auto
  show "render_line l = [] \<or> last (render_line l) \<noteq> carriage_return"
    using assms by (cases l) (simp_all add: render_field_eq attr_run_def)
qed

lemma lines_render:
  "list_all format_line_ok ls \<Longrightarrow> lines (render_lines ls) = map render_line ls"
  by (induction ls) (simp_all add: render_lines_def lines_Cons render_line_fresh)

lemma parse_line_render_line:
  "format_line_ok l \<Longrightarrow> parse_line (render_line l) = line_entry l"
proof (cases l)
  case (Field_Line f)
  then show "format_line_ok l \<Longrightarrow> ?thesis" by (simp add: parse_line_render)
next
  case (Other_Line s)
  then show "format_line_ok l \<Longrightarrow> ?thesis" by (simp add: parse_line_def)
qed

lemma parse_lines:
  assumes "list_all format_line_ok ls"
  shows "parse_format (render_lines ls) = List.map_filter line_entry ls"
  using assms
  by (induction ls)
     (auto simp: parse_format_def lines_render parse_line_render_line map_filter_simps split: option.splits)

text \<open>
  (C25) Round trip: parsing a format file printed the way the kernel prints it gives back the
  name, offset and size of every field line, in order, and nothing for the other lines
  (header, blank lines, the print format).
\<close>

theorem parse_format_roundtrip:
  assumes "list_all format_line_ok ls"
  shows "parse_format (render_lines ls) = List.map_filter line_entry ls"
  using assms by (rule parse_lines)

theorem parse_format_roundtrip_witness:
  "parse_format (render_lines [Other_Line [], Field_Line \<lparr>ff_type = ''int'', ff_name = ''pid'',
     ff_array = [], ff_offset = 8, ff_size = 4, ff_signed = 1\<rparr>]) = [(''pid'', 8, 4)]"
  by (subst parse_format_roundtrip)
     (simp_all add: format_field_ok_def format_entry_def graphic_def map_filter_simps)

text \<open>The format file of a 6.9+ kernel and of an older one, as the tests capture them.\<close>

definition plain_field :: "string \<Rightarrow> string \<Rightarrow> nat \<Rightarrow> nat \<Rightarrow> nat \<Rightarrow> format_line" where
  "plain_field ty name offset sz sg =
     Field_Line \<lparr>ff_type = ty, ff_name = name, ff_array = [], ff_offset = offset, ff_size = sz,
       ff_signed = sg\<rparr>"

definition common_lines :: "string \<Rightarrow> format_line list" where
  "common_lines ident =
     [Other_Line ''name: mark_victim'', Other_Line (''ID: '' @ ident), Other_Line ''format:'',
      plain_field ''unsigned short'' ''common_type'' 0 2 0,
      plain_field ''unsigned char'' ''common_flags'' 2 1 0,
      plain_field ''unsigned char'' ''common_preempt_count'' 3 1 0,
      plain_field ''int'' ''common_pid'' 4 4 1,
      Other_Line [], plain_field ''int'' ''pid'' 8 4 1]"

definition extended_lines :: "format_line list" where
  "extended_lines =
     [plain_field ''__data_loc char[]'' ''comm'' 12 4 1,
      plain_field ''unsigned long'' ''total_vm'' 16 8 0,
      plain_field ''unsigned long'' ''anon_rss'' 24 8 0,
      plain_field ''unsigned long'' ''file_rss'' 32 8 0,
      plain_field ''unsigned long'' ''shmem_rss'' 40 8 0,
      plain_field ''unsigned int'' ''uid'' 48 4 0,
      plain_field ''unsigned long'' ''pgtables'' 56 8 0,
      plain_field ''short'' ''oom_score_adj'' 64 2 1]"

definition MODERN :: string where
  "MODERN = render_lines (common_lines ''1442'' @ extended_lines
     @ [Other_Line [], Other_Line (''print fmt: \"pid=%d comm=%s total-vm=%lukB\", ''
          @ ''REC->pid, __get_str(comm), REC->total_vm'')])"

definition PRE_6_9 :: string where
  "PRE_6_9 = render_lines (common_lines ''1189''
     @ [Other_Line [], Other_Line ''print fmt: \"pid=%d\", REC->pid''])"

lemma other_line_fresh:
  "graphic c \<Longrightarrow> c \<noteq> CHR ''f'' \<Longrightarrow> strip_prefix ''field:'' (trim (c # s)) = None"
  using prefix_trim_end [of "c # s"]
  by (auto simp: trim_def trim_start_graphic strip_prefix_None_iff dest: prefix_order.trans)

lemma other_line_ok:
  "graphic c \<Longrightarrow> c \<noteq> CHR ''f'' \<Longrightarrow>
    format_line_ok (Other_Line (c # s)) \<longleftrightarrow> newline \<notin> set s \<and> (s = [] \<or> last s \<noteq> carriage_return)"
  using newline_not_graphic by (auto simp: other_line_fresh graphic_def)

lemma plain_field_ok:
  "format_line_ok (plain_field ty name offset sz sg) \<longleftrightarrow>
     name \<noteq> [] \<and> list_all (\<lambda>c. graphic c \<and> c \<notin> set '';[*'') name
     \<and> CHR '';'' \<notin> set ty \<and> newline \<notin> set ty \<and> offset < 2 ^ 64 \<and> sz < 2 ^ 64"
  by (simp add: plain_field_def format_field_ok_def)

lemma line_entry_plain: "line_entry (plain_field ty name offset sz sg) = Some (name, offset, sz)"
  by (simp add: plain_field_def format_entry_def)

lemma empty_line_ok: "format_line_ok (Other_Line [])"
  by simp

lemma format_header_ok: "format_line_ok (Other_Line ''format:'')"
  by (simp add: trim_graphic_ends graphic_def)

lemmas line_ok_simps = other_line_ok plain_field_ok empty_line_ok format_header_ok graphic_def

lemma common_lines_ok:
  "newline \<notin> set ident \<Longrightarrow> carriage_return \<notin> set ident \<Longrightarrow> list_all format_line_ok (common_lines ident)"
  by (auto simp add: common_lines_def line_ok_simps simp del: format_line_ok.simps dest: last_in_set)

lemma extended_lines_ok: "list_all format_line_ok extended_lines"
  by (simp add: extended_lines_def line_ok_simps del: format_line_ok.simps)

lemma parse_MODERN:
  "parse_format MODERN =
     [(''common_type'', 0, 2), (''common_flags'', 2, 1), (''common_preempt_count'', 3, 1),
      (''common_pid'', 4, 4), (''pid'', 8, 4), (''comm'', 12, 4), (''total_vm'', 16, 8),
      (''anon_rss'', 24, 8), (''file_rss'', 32, 8), (''shmem_rss'', 40, 8), (''uid'', 48, 4),
      (''pgtables'', 56, 8), (''oom_score_adj'', 64, 2)]"
  unfolding MODERN_def
  by (subst parse_lines)
     (simp add: common_lines_ok extended_lines_ok other_line_ok empty_line_ok graphic_def
        del: format_line_ok.simps,
      simp add: common_lines_def extended_lines_def line_entry_plain map_filter_simps)

lemma parse_PRE_6_9:
  "parse_format PRE_6_9 =
     [(''common_type'', 0, 2), (''common_flags'', 2, 1), (''common_preempt_count'', 3, 1),
      (''common_pid'', 4, 4), (''pid'', 8, 4)]"
  unfolding PRE_6_9_def
  by (subst parse_lines)
     (simp add: common_lines_ok other_line_ok empty_line_ok graphic_def del: format_line_ok.simps,
      simp add: common_lines_def line_entry_plain map_filter_simps)

section \<open>What the check decides\<close>

lemma check_field_None_iff:
  "check_field found want = None \<longleftrightarrow>
     layout_find found (fl_name want) = Some (fl_offset want, fl_size want)"
  by (auto simp: check_field_def split: option.splits)

lemma REQUIRED_FIELDS_names:
  "distinct (map fl_name REQUIRED_FIELDS)"
  by (simp add: REQUIRED_FIELDS_def Field_new_def)

text \<open>
  The check passes exactly when, for every field the probe reads, the first line of the
  format file with that name gives the offset and size the probe hard-codes.
\<close>

lemma check_layout_passes_iff:
  "check_layout text = [] \<longleftrightarrow>
     list_all (\<lambda>want. layout_find (parse_format text) (fl_name want)
                       = Some (fl_offset want, fl_size want)) REQUIRED_FIELDS"
  by (simp add: check_layout_def Let_def map_filter_Nil_iff check_field_None_iff list_all_iff)

lemma check_layout_in_iff:
  "m \<in> set (check_layout text) \<longleftrightarrow>
     (\<exists>want \<in> set REQUIRED_FIELDS. check_field (parse_format text) want = Some m)"
  by (simp add: check_layout_def Let_def set_map_filter)

fun mismatch_name :: "mismatch \<Rightarrow> string" where
  "mismatch_name (Missing name) = name"
| "mismatch_name (Moved name e f) = name"

lemma check_field_name: "check_field found want = Some m \<Longrightarrow> mismatch_name m = fl_name want"
  by (auto simp: check_field_def split: option.splits if_splits)

lemma check_layout_of_field:
  assumes "want \<in> set REQUIRED_FIELDS" "mismatch_name m = fl_name want"
  shows "m \<in> set (check_layout text) \<longleftrightarrow> check_field (parse_format text) want = Some m"
proof -
  have "w = want" if "w \<in> set REQUIRED_FIELDS" "fl_name w = fl_name want" for w
    using that assms(1) REQUIRED_FIELDS_names by (metis distinct_map inj_onD)
  with assms show ?thesis
    by (metis check_layout_in_iff check_field_name)
qed

text \<open>
  Every discrepancy is named and nothing else is: a required field is reported missing
  exactly when the file has no entry for it, and moved, with both positions, exactly when its
  entry has another offset or size.
\<close>

lemma check_layout_reports:
  assumes "want \<in> set REQUIRED_FIELDS"
  shows "(Missing (fl_name want) \<in> set (check_layout text)
            \<longleftrightarrow> layout_find (parse_format text) (fl_name want) = None)
       \<and> (Moved (fl_name want) (fl_offset want, fl_size want) (o', s') \<in> set (check_layout text)
            \<longleftrightarrow> layout_find (parse_format text) (fl_name want) = Some (o', s')
              \<and> (o', s') \<noteq> (fl_offset want, fl_size want))"
  using assms
  by (auto simp: check_layout_of_field check_field_def split: option.splits)

lemma check_layout_reports_witness:
  "Missing ''total_vm'' \<in> set (check_layout PRE_6_9)"
  using check_layout_reports [of "Field_new ''total_vm'' 16 8" PRE_6_9]
  by (simp add: parse_PRE_6_9 REQUIRED_FIELDS_def Field_new_def layout_find_def)

text \<open>
  On the format file of a 6.9+ kernel the check finds nothing; on an older one it reports
  each of the eight fields after \<open>pid\<close> as missing, and \<open>pid\<close> not, although that field is
  where the probe expects it.
\<close>

lemma check_layout_kernels:
  "check_layout MODERN = [] \<and>
   check_layout PRE_6_9 =
     map Missing [''comm'', ''total_vm'', ''anon_rss'', ''file_rss'', ''shmem_rss'', ''uid'',
                  ''pgtables'', ''oom_score_adj'']"
  by (simp add: check_layout_def parse_MODERN parse_PRE_6_9 REQUIRED_FIELDS_def Field_new_def
      check_field_def layout_find_def map_filter_simps)

section \<open>Startup\<close>

lemma read_format_from_cases:
  "read_format_from fs ps le =
     (case find_map (\<lambda>p. case fs p of Inl e \<Rightarrow> None | Inr t \<Rightarrow> Some t) ps of
        Some t \<Rightarrow> Inr t
      | None \<Rightarrow> Inl (if ps = [] then le
                     else Some (last ps, case fs (last ps) of Inl e \<Rightarrow> e | Inr t \<Rightarrow> undefined)))"
  by (induction ps arbitrary: le) (auto split: sum.splits option.splits)

text \<open>The \<open>expect\<close> is never reached without an error to report.\<close>

lemma read_format_no_panic: "read_format_from fs FORMAT_PATHS None \<noteq> Inl None"
  by (simp add: read_format_from_cases FORMAT_PATHS_def split: option.split)

definition readable_format :: "file_reader \<Rightarrow> string option" where
  "readable_format fs =
     find_map (\<lambda>p. case fs p of Inl e \<Rightarrow> None | Inr t \<Rightarrow> Some t) FORMAT_PATHS"

lemma read_format_readable:
  "read_format fs = Inr text \<longleftrightarrow> readable_format fs = Some text"
  by (auto simp: read_format_def read_format_from_cases readable_format_def FORMAT_PATHS_def
      split: option.splits sum.splits)

text \<open>
  (C23) Startup gets past the check exactly when one of the two format files can be read and
  the first readable one has every required field in place; in every other case it is an
  error, so the probe is never loaded against a layout it would misread.
\<close>

theorem verify_kernel_layout_accepts_iff:
  "verify_kernel_layout fs = Inr () \<longleftrightarrow>
     (\<exists>text. readable_format fs = Some text \<and>
        list_all (\<lambda>want. layout_find (parse_format text) (fl_name want)
                         = Some (fl_offset want, fl_size want)) REQUIRED_FIELDS)"
proof -
  have "verify_kernel_layout fs = Inr () \<longleftrightarrow>
      (\<exists>text. read_format fs = Inr text \<and> check_layout text = [])"
    by (auto simp: verify_kernel_layout_def Let_def split: sum.splits)
  also have "\<dots> \<longleftrightarrow> (\<exists>text. readable_format fs = Some text \<and> check_layout text = [])"
    by (simp add: read_format_readable)
  finally show ?thesis
    by (simp add: check_layout_def Let_def map_filter_Nil_iff check_field_None_iff list_all_iff)
qed

end
