(* ===== verification/Ring.thy ===== *)
theory Ring
  imports Prelude
begin

text \<open>
  The BPF ring buffer between the probe and userspace. It is the kernel's, reached through
  \<open>aya_ebpf\<close> on one side and \<open>aya\<close> on the other, so it is an interface here: the two
  operations the sources call and, as its laws, what they rely on (a record that was accepted
  comes out once, whole and in order; one that was refused leaves no trace). The
  interpretation is a bounded buffer with the kernel's space accounting.
\<close>

locale ring_buf =
  fixes put :: "'ring \<Rightarrow> u8 list \<Rightarrow> 'ring option"
    and pop :: "'ring \<Rightarrow> (u8 list \<times> 'ring) option"
    and contents :: "'ring \<Rightarrow> u8 list list"
  assumes output_contents: "put r b = Some r' \<Longrightarrow> contents r' = contents r @ [b]"
    and pop_None: "pop r = None \<longleftrightarrow> contents r = []"
    and pop_Some: "pop r = Some (b, r') \<Longrightarrow> contents r = b # contents r'"
begin

lemma pop_shorter: "pop r = Some (b, r') \<Longrightarrow> length (contents r') < length (contents r)"
  by (auto dest: pop_Some)

lemma output_length: "put r b = Some r' \<Longrightarrow> length (contents r') = Suc (length (contents r))"
  by (auto dest: output_contents)

end

text \<open>
  A ring with its journal: every record it has ever accepted, in order. The journal is history
  and not part of the buffer, so nothing that reads the ring can depend on it.
\<close>

locale ring_journal = ring_buf put pop contents
  for put :: "'ring \<Rightarrow> u8 list \<Rightarrow> 'ring option" and pop contents +
  fixes journal :: "'ring \<Rightarrow> u8 list list"
  assumes put_journal: "put r b = Some r' \<Longrightarrow> journal r' = journal r @ [b]"
    and pop_journal: "pop r = Some (b, r') \<Longrightarrow> journal r' = journal r"

definition logged_put :: "('ring \<Rightarrow> u8 list \<Rightarrow> 'ring option) \<Rightarrow> 'ring \<times> u8 list list \<Rightarrow> u8 list \<Rightarrow> ('ring \<times> u8 list list) option" where
  "logged_put put rl b = (case put (fst rl) b of None \<Rightarrow> None | Some r' \<Rightarrow> Some (r', snd rl @ [b]))"

definition logged_pop :: "('ring \<Rightarrow> (u8 list \<times> 'ring) option) \<Rightarrow> 'ring \<times> u8 list list \<Rightarrow> (u8 list \<times> 'ring \<times> u8 list list) option" where
  "logged_pop pop rl = (case pop (fst rl) of None \<Rightarrow> None | Some (b, r') \<Rightarrow> Some (b, r', snd rl))"

context ring_buf
begin

lemma logged_ring: "ring_journal (logged_put put) (logged_pop pop) (\<lambda>rl. contents (fst rl)) snd"
  by unfold_locales
     (auto simp: logged_put_def logged_pop_def pop_None dest: output_contents pop_Some split: option.splits)

end

section \<open>The bounded buffer\<close>

text \<open>
  \<open>EVENTS: RingBuf::with_byte_size(256 * 1024, 0)\<close>. Each record occupies its bytes rounded up
  to a multiple of eight and an eight-byte header.
\<close>

definition EVENTS_byte_size :: nat where
  "EVENTS_byte_size = 256 * 1024"

record bounded_ring =
  br_records :: "u8 list list"
  br_capacity :: nat

definition record_space :: "u8 list \<Rightarrow> nat" where
  "record_space b = 8 + (length b + 7) div 8 * 8"

definition br_used :: "bounded_ring \<Rightarrow> nat" where
  "br_used r = sum_list (map record_space (br_records r))"

definition br_new :: "nat \<Rightarrow> bounded_ring" where
  "br_new cap = \<lparr>br_records = [], br_capacity = cap\<rparr>"

definition br_output :: "bounded_ring \<Rightarrow> u8 list \<Rightarrow> bounded_ring option" where
  "br_output r b =
     (if br_used r + record_space b \<le> br_capacity r
      then Some (r\<lparr>br_records := br_records r @ [b]\<rparr>) else None)"

definition br_pop :: "bounded_ring \<Rightarrow> (u8 list \<times> bounded_ring) option" where
  "br_pop r = (case br_records r of [] \<Rightarrow> None | b # bs \<Rightarrow> Some (b, r\<lparr>br_records := bs\<rparr>))"

interpretation br: ring_buf br_output br_pop br_records
  by unfold_locales (auto simp: br_output_def br_pop_def split: if_splits list.splits)

interpretation lr: ring_journal "logged_put br_output" "logged_pop br_pop" "\<lambda>rl. br_records (fst rl)" snd
  by (rule br.logged_ring)

end
