(* ===== verification/Probe.thy ===== *)
theory Probe
  imports Events Tracepoint Ring
begin

text \<open>
  \<open>oom-watcher-ebpf/src/main.rs\<close>: the program attached to \<open>oom:mark_victim\<close>. The kernel
  helpers of \<open>aya_ebpf\<close> are parameters, collected in the record \<open>bpf_helpers\<close>: reading
  kernel memory, reading a kernel string into a buffer, and the ring buffer's \<open>output\<close>. The
  program's own work is the layout of \<open>MarkVictimArgs\<close>, the decoding, and the accounting of
  refused events.
\<close>

section \<open>The trace entry\<close>

definition mark_victim_fields :: "(string \<times> nat \<times> nat) list" where
  "mark_victim_fields =
     [(''common_type'', 2, 2), (''common_flags'', 1, 1), (''common_preempt_count'', 1, 1),
      (''common_pid'', 4, 4), (''pid'', 4, 4), (''comm_data_loc'', 4, 4), (''total_vm'', 8, 8),
      (''anon_rss'', 8, 8), (''file_rss'', 8, 8), (''shmem_rss'', 8, 8), (''uid'', 4, 4),
      (''pgtables'', 8, 8), (''oom_score_adj'', 2, 2)]"

definition mark_victim_layout :: layout where
  "mark_victim_layout = repr_c 0 mark_victim_fields"

definition size_of_MarkVictimArgs :: nat where
  "size_of_MarkVictimArgs = repr_c_size mark_victim_fields"

record mark_victim_args =
  mv_common_type :: u16
  mv_common_flags :: u8
  mv_common_preempt_count :: u8
  mv_common_pid :: i32
  mv_pid :: i32
  mv_comm_data_loc :: u32
  mv_total_vm :: u64
  mv_anon_rss :: u64
  mv_file_rss :: u64
  mv_shmem_rss :: u64
  mv_uid :: u32
  mv_pgtables :: u64
  mv_oom_score_adj :: i16

text \<open>The bytes read, as the struct.\<close>

definition read_args :: "u8 list \<Rightarrow> mark_victim_args" where
  "read_args bs =
     (let f = (\<lambda>name. field_at mark_victim_layout name bs) in
      \<lparr>mv_common_type = le_word (f ''common_type''), mv_common_flags = le_word (f ''common_flags''),
       mv_common_preempt_count = le_word (f ''common_preempt_count''),
       mv_common_pid = le_word (f ''common_pid''), mv_pid = le_word (f ''pid''),
       mv_comm_data_loc = le_word (f ''comm_data_loc''), mv_total_vm = le_word (f ''total_vm''),
       mv_anon_rss = le_word (f ''anon_rss''), mv_file_rss = le_word (f ''file_rss''),
       mv_shmem_rss = le_word (f ''shmem_rss''), mv_uid = le_word (f ''uid''),
       mv_pgtables = le_word (f ''pgtables''), mv_oom_score_adj = le_word (f ''oom_score_adj'')\<rparr>)"

lemma mark_victim_layout_eq:
  "mark_victim_layout =
     [(''common_type'', 0, 2), (''common_flags'', 2, 1), (''common_preempt_count'', 3, 1),
      (''common_pid'', 4, 4), (''pid'', 8, 4), (''comm_data_loc'', 12, 4), (''total_vm'', 16, 8),
      (''anon_rss'', 24, 8), (''file_rss'', 32, 8), (''shmem_rss'', 40, 8), (''uid'', 48, 4),
      (''pgtables'', 56, 8), (''oom_score_adj'', 64, 2)]"
  by (simp add: mark_victim_layout_def mark_victim_fields_def Let_def align_up_def)

lemma size_of_MarkVictimArgs_eq: "size_of_MarkVictimArgs = 72"
  by (simp add: size_of_MarkVictimArgs_def repr_c_size_def mark_victim_fields_def Let_def align_up_def)

section \<open>The program\<close>

text \<open>
  \<open>bpf_read a n\<close>: \<open>n\<close> bytes at \<open>a\<close>, or an error. \<open>bpf_read_str a buf\<close>: the buffer after
  reading a string at \<open>a\<close> into it, whatever the helper returns. \<open>bpf_output\<close>: \<open>None\<close> is
  the error of a full buffer.
\<close>

record 'ring bpf_helpers =
  bpf_read :: "nat \<Rightarrow> nat \<Rightarrow> u8 list option"
  bpf_read_str :: "nat \<Rightarrow> u8 list \<Rightarrow> u8 list"
  bpf_output :: "'ring \<Rightarrow> u8 list \<Rightarrow> 'ring option"

text \<open>The two maps; \<open>DROPPED\<close> holds one value for each CPU.\<close>

record 'ring probe_state =
  EVENTS :: 'ring
  DROPPED :: "u64 list"

definition decode_event :: "mark_victim_args \<Rightarrow> u8 list \<Rightarrow> oom_kill_event" where
  "decode_event args comm =
     \<lparr>ev_pid = mv_pid args, ev_comm = comm, ev_total_vm = mv_total_vm args,
      ev_anon_rss = mv_anon_rss args, ev_file_rss = mv_file_rss args,
      ev_shmem_rss = mv_shmem_rss args, ev_uid = mv_uid args, ev_pgtables = mv_pgtables args,
      ev_oom_score_adj = mv_oom_score_adj args\<rparr>"

text \<open>
  One firing on CPU \<open>cpu\<close>, with the context at address \<open>ctx\<close> and \<open>pad\<close> in the padding
  of the event. The increment is on \<open>u64\<close> and wraps; the program is built in release mode.
\<close>

unbundle bit_operations_syntax

definition mark_victim ::
  "'ring bpf_helpers \<Rightarrow> (nat \<Rightarrow> u8) \<Rightarrow> nat \<Rightarrow> nat \<Rightarrow> 'ring probe_state \<Rightarrow> u32 \<times> 'ring probe_state" where
  "mark_victim bpf pad ctx cpu s =
     (case bpf_read bpf ctx size_of_MarkVictimArgs of
        None \<Rightarrow> (0, s)
      | Some bs \<Rightarrow>
          let args = read_args bs;
              comm_offset = unat (mv_comm_data_loc args AND 0xFFFF);
              comm = bpf_read_str bpf (ctx + comm_offset) (replicate 16 0);
              event = decode_event args comm
          in (case bpf_output bpf (EVENTS s) (event_bytes pad event) of
                Some ring \<Rightarrow> (0, s\<lparr>EVENTS := ring\<rparr>)
              | None \<Rightarrow>
                  if cpu < length (DROPPED s)
                  then (0, s\<lparr>DROPPED := (DROPPED s)[cpu := DROPPED s ! cpu + 1]\<rparr>)
                  else (0, s)))"

text \<open>Several firings, each on a CPU and with a context address.\<close>

fun mark_victims ::
  "'ring bpf_helpers \<Rightarrow> (nat \<Rightarrow> u8) \<Rightarrow> (nat \<times> nat) list \<Rightarrow> 'ring probe_state \<Rightarrow> 'ring probe_state" where
  "mark_victims bpf pad [] s = s"
| "mark_victims bpf pad ((ctx, cpu) # fires) s =
     mark_victims bpf pad fires (snd (mark_victim bpf pad ctx cpu s))"

section \<open>The layout check covers what the program reads\<close>

text \<open>The trace-entry name of a struct field: only \<open>comm\<close> is called differently in the struct.\<close>

definition entry_name :: "string \<Rightarrow> string" where
  "entry_name name = (if name = ''comm_data_loc'' then ''comm'' else name)"

definition decoded_fields :: "(string \<times> nat \<times> nat) list" where
  "decoded_fields = filter (\<lambda>(name, _). take 7 name \<noteq> ''common_'') mark_victim_layout"

lemma required_decoded:
  "map (\<lambda>f. (fl_name f, fl_offset f, fl_size f)) REQUIRED_FIELDS
     = map (\<lambda>(name, pos). (entry_name name, pos)) decoded_fields"
  by (simp add: REQUIRED_FIELDS_def Field_new_def decoded_fields_def mark_victim_layout_eq
      entry_name_def)

lemma mark_victim_layout_ok: "layout_ok mark_victim_layout size_of_MarkVictimArgs"
  by (simp add: mark_victim_layout_eq size_of_MarkVictimArgs_eq layout_ok_def)

text \<open>
  \<open>REQUIRED_FIELDS\<close>, which userspace checks against the kernel, is exactly what the
  \<open>#[repr(C)]\<close> rule makes of the fields of \<open>MarkVictimArgs\<close> that the probe decodes: the same
  fields in the same order at the same offsets with the same sizes, within a 72-byte struct.
\<close>

lemma required_fields_are_the_decoded_ones:
  "map (\<lambda>f. (fl_name f, fl_offset f, fl_size f)) REQUIRED_FIELDS
     = map (\<lambda>(name, pos). (entry_name name, pos)) decoded_fields
   \<and> size_of_MarkVictimArgs = 72 \<and> layout_ok mark_victim_layout size_of_MarkVictimArgs"
  using mark_victim_layout_ok by (simp add: required_decoded size_of_MarkVictimArgs_eq)

text \<open>
  A trace entry of the running kernel: its bytes are laid out as the format file says, with
  the bytes \<open>val name\<close> in field \<open>name\<close>.
\<close>

definition kernel_entry :: "string \<Rightarrow> nat \<Rightarrow> (string \<Rightarrow> u8 list) \<Rightarrow> bool" where
  "kernel_entry text len val \<longleftrightarrow>
     layout_ok (parse_format text) len \<and> size_of_MarkVictimArgs \<le> len
     \<and> list_all (\<lambda>(name, off, sz). length (val name) = sz) (parse_format text)"

lemma bytes_at_take: "off + sz \<le> n \<Longrightarrow> bytes_at off sz (take n bs) = bytes_at off sz bs"
  by (simp add: bytes_at_def drop_take min_def)

lemma decoded_field:
  assumes "check_layout text = []" "kernel_entry text len val" "(name, off, sz) \<in> set decoded_fields"
  shows "field_at mark_victim_layout name
           (take size_of_MarkVictimArgs (struct_bytes (parse_format text) len val pad))
         = val (entry_name name)"
proof -
  from assms(3) have m: "(name, off, sz) \<in> set mark_victim_layout"
    by (simp add: decoded_fields_def)
  have find: "layout_find mark_victim_layout name = Some (off, sz)"
    using m by (rule layout_findI [rotated]) (simp add: mark_victim_layout_eq)
  have "(entry_name name, off, sz) \<in> set (map (\<lambda>f. (fl_name f, fl_offset f, fl_size f)) REQUIRED_FIELDS)"
    unfolding required_decoded using assms(3) by force
  with assms(1) have "layout_find (parse_format text) (entry_name name) = Some (off, sz)"
    by (auto simp: check_layout_def Let_def map_filter_Nil_iff check_field_None_iff)
  then have k: "(entry_name name, off, sz) \<in> set (parse_format text)"
    by (simp add: layout_find_def map_of_SomeD)
  have "off + sz \<le> size_of_MarkVictimArgs"
    using m mark_victim_layout_ok by (auto simp: layout_ok_def)
  moreover have "bytes_at off sz (struct_bytes (parse_format text) len val pad) = val (entry_name name)"
    using assms(2) k by (intro bytes_at_struct_bytes) (auto simp: kernel_entry_def list_all_iff)
  ultimately show ?thesis using find by (simp add: field_at_def bytes_at_take)
qed

lemma decoded_fields_eq:
  "decoded_fields =
     [(''pid'', 8, 4), (''comm_data_loc'', 12, 4), (''total_vm'', 16, 8),
      (''anon_rss'', 24, 8), (''file_rss'', 32, 8), (''shmem_rss'', 40, 8), (''uid'', 48, 4),
      (''pgtables'', 56, 8), (''oom_score_adj'', 64, 2)]"
  by (simp add: decoded_fields_def mark_victim_layout_eq)

text \<open>The event the kernel's values describe.\<close>

definition kernel_event :: "(string \<Rightarrow> u8 list) \<Rightarrow> u8 list \<Rightarrow> oom_kill_event" where
  "kernel_event val comm =
     \<lparr>ev_pid = le_word (val ''pid''), ev_comm = comm, ev_total_vm = le_word (val ''total_vm''),
      ev_anon_rss = le_word (val ''anon_rss''), ev_file_rss = le_word (val ''file_rss''),
      ev_shmem_rss = le_word (val ''shmem_rss''), ev_uid = le_word (val ''uid''),
      ev_pgtables = le_word (val ''pgtables''), ev_oom_score_adj = le_word (val ''oom_score_adj'')\<rparr>"

definition kernel_comm :: "'ring bpf_helpers \<Rightarrow> nat \<Rightarrow> (string \<Rightarrow> u8 list) \<Rightarrow> u8 list" where
  "kernel_comm bpf ctx val =
     bpf_read_str bpf (ctx + unat ((le_word (val ''comm'') :: u32) AND 0xFFFF)) (replicate 16 0)"

lemma read_args_kernel:
  assumes "check_layout text = []" "kernel_entry text len val"
    and bs_def: "bs = take size_of_MarkVictimArgs (struct_bytes (parse_format text) len val pad)"
  shows "decode_event (read_args bs) comm = kernel_event val comm"
    and "mv_comm_data_loc (read_args bs) = le_word (val ''comm'')"
proof -
  have f: "field_at mark_victim_layout name bs = val (entry_name name)"
    if "name \<in> set (map fst decoded_fields)" for name
    using that decoded_field [OF assms(1,2)] unfolding bs_def by fastforce
  show "decode_event (read_args bs) comm = kernel_event val comm"
    by (simp add: decode_event_def read_args_def kernel_event_def Let_def f decoded_fields_eq entry_name_def)
  show "mv_comm_data_loc (read_args bs) = le_word (val ''comm'')"
    by (simp add: read_args_def Let_def f decoded_fields_eq entry_name_def)
qed

lemma mark_victim_kernel:
  assumes "check_layout text = []" "kernel_entry text len val"
    and "bpf_read bpf ctx size_of_MarkVictimArgs
           = Some (take size_of_MarkVictimArgs (struct_bytes (parse_format text) len val entry_pad))"
    and ev_def: "ev = kernel_event val (kernel_comm bpf ctx val)"
  shows "mark_victim bpf pad ctx cpu s =
           (case bpf_output bpf (EVENTS s) (event_bytes pad ev) of
              Some ring \<Rightarrow> (0, s\<lparr>EVENTS := ring\<rparr>)
            | None \<Rightarrow> (0, if cpu < length (DROPPED s)
                           then s\<lparr>DROPPED := (DROPPED s)[cpu := DROPPED s ! cpu + 1]\<rparr> else s))"
  by (simp add: mark_victim_def assms(3) Let_def read_args_kernel [OF assms(1,2) refl] kernel_comm_def ev_def
      split: option.split)

lemma event_ok_kernel:
  "(\<And>a buf. length (bpf_read_str bpf a buf) = length buf) \<Longrightarrow> event_ok (kernel_event val (kernel_comm bpf ctx val))"
  by (simp add: event_ok_def kernel_event_def kernel_comm_def)

text \<open>A concrete kernel: every byte of every field is 7, on a 6.9+ format file.\<close>

definition sample_val :: "string \<Rightarrow> u8 list" where
  "sample_val name = (case layout_find (parse_format MODERN) name of
     None \<Rightarrow> [] | Some (off, sz) \<Rightarrow> replicate sz 7)"

definition sample_bpf :: "bounded_ring bpf_helpers" where
  "sample_bpf =
     \<lparr>bpf_read = (\<lambda>a n. Some (take n (struct_bytes (parse_format MODERN) 72 sample_val (\<lambda>_. 0)))),
      bpf_read_str = (\<lambda>a buf. buf), bpf_output = br_output\<rparr>"

definition sample_probe :: "bounded_ring probe_state" where
  "sample_probe = \<lparr>EVENTS = br_new EVENTS_byte_size, DROPPED = [0, 0]\<rparr>"

lemma sample_kernel_entry: "kernel_entry MODERN 72 sample_val"
  by (simp add: kernel_entry_def sample_val_def parse_MODERN layout_ok_def size_of_MarkVictimArgs_eq
      layout_find_def)

lemma check_MODERN: "check_layout MODERN = []"
  by (simp add: check_layout_def parse_MODERN REQUIRED_FIELDS_def Field_new_def
      check_field_def layout_find_def map_filter_simps)

section \<open>No event is lost without being counted\<close>

lemma sum_list_increment:
  "i < length xs \<Longrightarrow> sum_list (xs[i := xs ! i + 1]) = sum_list xs + (1 :: u64)"
  by (induction xs arbitrary: i) (auto simp: nth_Cons split: nat.splits)

definition args_readable :: "'ring bpf_helpers \<Rightarrow> nat \<times> nat \<Rightarrow> bool" where
  "args_readable bpf fire \<longleftrightarrow> bpf_read bpf (fst fire) size_of_MarkVictimArgs \<noteq> None"

context ring_buf
begin

lemma mark_victim_accounts:
  assumes "bpf_output bpf = put" "bpf_read bpf ctx size_of_MarkVictimArgs \<noteq> None"
    and "cpu < length (DROPPED s)"
    and s'_def: "s' = snd (mark_victim bpf pad ctx cpu s)"
  shows "of_nat (length (contents (EVENTS s'))) + sum_list (DROPPED s')
           = (of_nat (length (contents (EVENTS s))) + sum_list (DROPPED s) + 1 :: u64)"
    and "length (DROPPED s') = length (DROPPED s)"
  using assms(2,3) unfolding s'_def
  by (auto simp: mark_victim_def Let_def assms(1) sum_list_increment
      split: option.split dest!: output_length)

text \<open>
  The firings whose arguments the probe can read. The others return at once: they send nothing
  and count nothing.
\<close>

lemma mark_victim_unread:
  "bpf_read bpf ctx size_of_MarkVictimArgs = None \<Longrightarrow> mark_victim bpf pad ctx cpu s = (0, s)"
  by (simp add: mark_victim_def)

lemma mark_victims_account:
  assumes "bpf_output bpf = put"
    and "\<forall>(ctx, cpu) \<in> set fires. cpu < length (DROPPED s)"
    and s'_def: "s' = mark_victims bpf pad fires s"
  shows "of_nat (length (contents (EVENTS s'))) + sum_list (DROPPED s')
           = (of_nat (length (contents (EVENTS s))) + sum_list (DROPPED s)
              + of_nat (length (filter (args_readable bpf) fires)) :: u64)"
  using assms(2) unfolding s'_def
proof (induction fires arbitrary: s)
  case Nil
  then show ?case by simp
next
  case (Cons f fires)
  obtain ctx cpu where f: "f = (ctx, cpu)" by (cases f)
  show ?case
  proof (cases "bpf_read bpf ctx size_of_MarkVictimArgs = None")
    case True
    with Cons.IH [of s] Cons.prems show ?thesis
      by (simp add: f mark_victim_unread args_readable_def)
  next
    case False
    from Cons.prems f have "cpu < length (DROPPED s)" by auto
    note step = mark_victim_accounts [OF assms(1) False this refl, of pad]
    show ?thesis using Cons.IH [of "snd (mark_victim bpf pad ctx cpu s)"] Cons.prems step False
      by (auto simp: f args_readable_def)
  qed
qed

end

end
