(* ===== verification/Source.thy ===== *)
theory Source
  imports Probe "HOL-Library.While_Combinator"
begin

text \<open>
  \<open>oom-watcher/src/source.rs\<close>, the in-cluster event source: draining the ring buffer into
  decoded events, the total of dropped ones, and the start-up of the probe. \<open>aya\<close>, \<open>libc\<close>
  and the reactor are not part of the sources. The maps are those of the probe; what the
  kernel does to them while the source waits is a parameter. Awaiting \<open>readable_mut\<close> is the
  only point where \<open>next\<close> gives way, so it is the only point where it can be cancelled.
\<close>

section \<open>The seam\<close>

text \<open>
  The trait \<open>OomEventSource\<close> of \<open>oom-watcher/src/watch.rs\<close>: polling \<open>next\<close> while the
  environment does \<open>env\<close>. A poll that is \<open>Pending\<close> leaves the state that the next call finds
  when the future is dropped. \<open>Hangs\<close> is a poll that never comes back.
\<close>

datatype poll = Ready "oom_kill_event option" | Pending | Hangs

record ('env, 's) source_ops =
  src_next :: "'env \<Rightarrow> 's \<Rightarrow> poll \<times> 's"
  src_dropped_total :: "'s \<Rightarrow> u64 option"

definition delivered :: "poll \<Rightarrow> oom_kill_event list" where
  "delivered r = (case r of Ready (Some ev) \<Rightarrow> [ev] | _ \<Rightarrow> [])"

lemma delivered_simps [simp]:
  "delivered (Ready (Some ev)) = [ev]" "delivered (Ready None) = []" "delivered Pending = []"
  by (simp_all add: delivered_def)

text \<open>
  What the watch loop relies on. \<open>backlog\<close> is what the source still owes, \<open>history\<close> every event
  that has ever arrived at it. Cancel safety is the case of \<open>Pending\<close>: nothing of the backlog
  goes.
\<close>

locale event_source =
  fixes S :: "('env, 's) source_ops"
    and backlog :: "'s \<Rightarrow> oom_kill_event list"
    and history :: "'s \<Rightarrow> oom_kill_event list"
  assumes next_conserves: "src_next S env s = (r, s') \<Longrightarrow>
      \<exists>new. history s' = history s @ new \<and> delivered r @ backlog s' = backlog s @ new"
    and next_returns: "fst (src_next S env s) \<noteq> Hangs"

text \<open>The source of the tests of \<open>watch.rs\<close>: a queue that ends.\<close>

record vec_source =
  vs_events :: "oom_kill_event list"
  vs_drops :: "u64 option"

definition vec_source_ops :: "(unit, vec_source) source_ops" where
  "vec_source_ops =
     \<lparr>src_next = (\<lambda>env s. case vs_events s of
        [] \<Rightarrow> (Ready None, s) | e # es \<Rightarrow> (Ready (Some e), s\<lparr>vs_events := es\<rparr>)),
      src_dropped_total = vs_drops\<rparr>"

interpretation vec: event_source vec_source_ops vs_events "\<lambda>s. []"
  by unfold_locales (auto simp: vec_source_ops_def split: list.splits)

text \<open>\<open>ParkSource\<close>, for builds without the probe, only ever sleeps.\<close>

definition park_source_ops :: "(unit, unit) source_ops" where
  "park_source_ops = \<lparr>src_next = (\<lambda>env s. (Pending, s)), src_dropped_total = (\<lambda>s. None)\<rparr>"

interpretation park: event_source park_source_ops "\<lambda>s. []" "\<lambda>s. []"
  by unfold_locales (auto simp: park_source_ops_def)

section \<open>The ring buffer source\<close>

record 'ring ring_buf_source =
  rs_maps :: "'ring probe_state" \<comment> \<open>\<open>ring_buf\<close> and \<open>dropped\<close>, shared with the probe\<close>
  rs_pending :: "oom_kill_event list"

definition decode_record :: "u8 list \<Rightarrow> oom_kill_event option" where
  "decode_record data = (if size_of_OomKillEvent \<le> length data then Some (read_event data) else None)"

text \<open>The inner loop: until the ring is empty.\<close>

definition drain_step ::
  "('ring \<Rightarrow> (u8 list \<times> 'ring) option) \<Rightarrow> 'ring \<times> oom_kill_event list \<Rightarrow> 'ring \<times> oom_kill_event list" where
  "drain_step pop = (\<lambda>(r, pending).
     case pop r of
       None \<Rightarrow> (r, pending)
     | Some (data, r') \<Rightarrow>
         (r', case decode_record data of Some ev \<Rightarrow> pending @ [ev] | None \<Rightarrow> pending))"

definition drain ::
  "('ring \<Rightarrow> (u8 list \<times> 'ring) option) \<Rightarrow> 'ring \<Rightarrow> oom_kill_event list \<Rightarrow> ('ring \<times> oom_kill_event list) option" where
  "drain pop r pending = while_option (\<lambda>(r, _). pop r \<noteq> None) (drain_step pop) (r, pending)"

text \<open>
  The outer loop of \<open>next\<close>. Each wait that returns has let the kernel do one of \<open>batches\<close>
  to the maps; then the readiness wait fails, or never returns. What is left of the batches
  when an event is at hand happens while it is being processed.
\<close>

fun ring_buf_next ::
  "('ring \<Rightarrow> (u8 list \<times> 'ring) option) \<Rightarrow> ('b \<Rightarrow> 'ring probe_state \<Rightarrow> 'ring probe_state)
     \<Rightarrow> 'b list \<Rightarrow> bool \<Rightarrow> 'ring ring_buf_source \<Rightarrow> poll \<times> 'ring ring_buf_source" where
  "ring_buf_next pop arrive batches fails s =
     (case rs_pending s of
        ev # rest \<Rightarrow>
          (Ready (Some ev), s\<lparr>rs_pending := rest, rs_maps := fold arrive batches (rs_maps s)\<rparr>)
      | [] \<Rightarrow>
          (case batches of
             [] \<Rightarrow> (if fails then Ready None else Pending, s)
           | batch # later \<Rightarrow>
               (let maps = arrive batch (rs_maps s) in
                case drain pop (EVENTS maps) (rs_pending s) of
                  None \<Rightarrow> (Hangs, s)
                | Some (ring, pending) \<Rightarrow>
                    ring_buf_next pop arrive later fails
                      (s\<lparr>rs_maps := maps\<lparr>EVENTS := ring\<rparr>, rs_pending := pending\<rparr>))))"

declare ring_buf_next.simps [simp del]

text \<open>The counter of \<open>PerCpuArray::get\<close>, or its error; the sum over the CPUs wraps.\<close>

definition ring_buf_dropped_total ::
  "('ring probe_state \<Rightarrow> u64 list option) \<Rightarrow> 'ring ring_buf_source \<Rightarrow> u64 option" where
  "ring_buf_dropped_total get_dropped s =
     (case get_dropped (rs_maps s) of Some per_cpu \<Rightarrow> Some (sum_list per_cpu) | None \<Rightarrow> None)"

definition ring_buf_source_ops ::
  "('ring \<Rightarrow> (u8 list \<times> 'ring) option) \<Rightarrow> ('b \<Rightarrow> 'ring probe_state \<Rightarrow> 'ring probe_state)
     \<Rightarrow> ('ring probe_state \<Rightarrow> u64 list option) \<Rightarrow> ('b list \<times> bool, 'ring ring_buf_source) source_ops" where
  "ring_buf_source_ops pop arrive get_dropped =
     \<lparr>src_next = (\<lambda>(batches, fails). ring_buf_next pop arrive batches fails),
      src_dropped_total = ring_buf_dropped_total get_dropped\<rparr>"

section \<open>It meets the seam's contract\<close>

context ring_buf
begin

abbreviation decoded :: "'ring \<Rightarrow> oom_kill_event list" where
  "decoded r \<equiv> List.map_filter decode_record (contents r)"

lemma drain_result:
  "drain pop r pending = Some (r', pending') \<Longrightarrow> contents r' = [] \<and> pending' = pending @ decoded r"
proof -
  assume d: "drain pop r pending = Some (r', pending')"
  have "pop r' = None" using while_option_stop [OF d [unfolded drain_def]] by (cases "pop r'") auto
  moreover have "(\<lambda>(x, p). p @ decoded x = pending @ decoded r) (r', pending')"
  proof (rule while_option_rule [OF _ d [unfolded drain_def], where P = "\<lambda>(x, p). p @ decoded x = pending @ decoded r"])
    show "case drain_step pop s of (x, p) \<Rightarrow> p @ decoded x = pending @ decoded r"
      if "case s of (x, p) \<Rightarrow> p @ decoded x = pending @ decoded r" "case s of (x, _) \<Rightarrow> pop x \<noteq> None" for s
      using that by (auto simp: drain_step_def map_filter_simps dest!: pop_Some split: option.splits)
  qed simp
  ultimately show ?thesis by (simp add: pop_None map_filter_simps)
qed

lemma drain_terminates: "\<exists>r' pending'. drain pop r pending = Some (r', pending')"
proof -
  have "wf_on (UNIV :: ('ring \<times> oom_kill_event list) set) (measure (\<lambda>(x, p). length (contents x)))" by simp
  then have "\<exists>t. while_option (\<lambda>(x, _). pop x \<noteq> None) (drain_step pop) (r, pending) = Some t"
    by (intro measure_while_option_Some [where P = "\<lambda>_. True" and f = "\<lambda>(x, p). length (contents x)"])
       (auto simp: drain_step_def dest: pop_shorter)
  then show ?thesis by (simp add: drain_def)
qed

end

text \<open>
  (C38) The inner loop of \<open>next\<close> ends, whatever the ring holds: each turn takes one record, so after
  finitely many the ring is empty, and what was pending is followed by every decodable record
  in order; records of the wrong size are skipped and do not stop it.
\<close>

theorem drain_terminates_empty:
  assumes "ring_buf put pop contents"
  shows "\<exists>r'. drain pop r pending = Some (r', pending @ List.map_filter decode_record (contents r)) \<and> contents r' = []"
  using ring_buf.drain_terminates [OF assms, of r pending] ring_buf.drain_result [OF assms, of r pending] by blast

theorem drain_terminates_empty_witness:
  "\<exists>r'. drain br_pop \<lparr>br_records = [[1, 2], replicate 80 0], br_capacity = 1000\<rparr> [] = Some (r', [read_event (replicate 80 0)])
     \<and> br_records r' = []"
  using drain_terminates_empty [OF br.ring_buf_axioms, of "\<lparr>br_records = [[1, 2], replicate 80 0], br_capacity = 1000\<rparr>" "[]"]
  by (simp add: map_filter_simps decode_record_def size_of_OomKillEvent_eq)

text \<open>What the kernel does while the source waits only adds records, and all of them are journalled.\<close>

locale ring_feed = ring_journal put pop contents journal
  for put :: "'ring \<Rightarrow> u8 list \<Rightarrow> 'ring option" and pop contents journal +
  fixes arrive :: "'b \<Rightarrow> 'ring probe_state \<Rightarrow> 'ring probe_state"
  assumes arrive_adds: "\<exists>new. contents (EVENTS (arrive b m)) = contents (EVENTS m) @ new
      \<and> journal (EVENTS (arrive b m)) = journal (EVENTS m) @ new"
begin

definition owed :: "'ring ring_buf_source \<Rightarrow> oom_kill_event list" where
  "owed s = rs_pending s @ decoded (EVENTS (rs_maps s))"

definition arrived :: "'ring ring_buf_source \<Rightarrow> oom_kill_event list" where
  "arrived s = List.map_filter decode_record (journal (EVENTS (rs_maps s)))"

lemma arrivals_add:
  "\<exists>new. contents (EVENTS (fold arrive bs m)) = contents (EVENTS m) @ new
     \<and> journal (EVENTS (fold arrive bs m)) = journal (EVENTS m) @ new"
proof (induction bs arbitrary: m)
  case Nil
  then show ?case by simp
next
  case (Cons b bs)
  from arrive_adds [of b m] Cons [of "arrive b m"] show ?case by auto
qed

lemma drain_journal:
  assumes "drain pop r pending = Some (r', pending')"
  shows "journal r' = journal r"
proof -
  have "(\<lambda>(x, p). journal x = journal r) (r', pending')"
    by (rule while_option_rule [OF _ assms [unfolded drain_def]])
       (auto simp: drain_step_def pop_journal split: option.splits)
  then show ?thesis by simp
qed

lemma next_owes:
  assumes "ring_buf_next pop arrive batches fails s = (r, s')"
  shows "\<exists>new. journal (EVENTS (rs_maps s')) = journal (EVENTS (rs_maps s)) @ new
           \<and> delivered r @ owed s' = owed s @ List.map_filter decode_record new"
  using assms
proof (induction batches arbitrary: s)
  case Nil
  then show ?case
    by (auto simp: ring_buf_next.simps [of _ _ "[]"] owed_def map_filter_simps split: list.splits if_splits)
next
  case (Cons b bs)
  show ?case
  proof (cases "rs_pending s")
    case Nil
    let ?m = "arrive b (rs_maps s)"
    from drain_terminates obtain ring p where d: "drain pop (EVENTS ?m) [] = Some (ring, p)" by blast
    let ?s = "s\<lparr>rs_maps := ?m\<lparr>EVENTS := ring\<rparr>, rs_pending := p\<rparr>"
    from arrive_adds [of b "rs_maps s"] obtain new1
      where n1: "contents (EVENTS ?m) = contents (EVENTS (rs_maps s)) @ new1"
        "journal (EVENTS ?m) = journal (EVENTS (rs_maps s)) @ new1" by blast
    have "ring_buf_next pop arrive bs fails ?s = (r, s')"
      using Cons.prems by (simp add: ring_buf_next.simps [of _ _ "b # bs"] Let_def Nil d)
    from Cons.IH [OF this] obtain new2
      where "journal (EVENTS (rs_maps s')) = journal ring @ new2"
        "delivered r @ owed s' = owed ?s @ List.map_filter decode_record new2" by auto
    with n1 drain_result [OF d] drain_journal [OF d] show ?thesis
      by (intro exI [of _ "new1 @ new2"]) (simp add: owed_def Nil map_filter_append map_filter_simps)
  next
    case (Cons ev rest)
    with Cons.prems arrivals_add [of "b # bs" "rs_maps s"] show ?thesis
      by (auto simp: ring_buf_next.simps [of _ _ "b # bs"] owed_def map_filter_append)
  qed
qed

lemma next_never_hangs: "fst (ring_buf_next pop arrive batches fails s) \<noteq> Hangs"
proof (induction batches arbitrary: s)
  case Nil
  then show ?case by (simp add: ring_buf_next.simps [of _ _ "[]"] split: list.split)
next
  case (Cons b bs)
  from drain_terminates obtain r p where "drain pop (EVENTS (arrive b (rs_maps s))) [] = Some (r, p)" by blast
  with Cons show ?case
    by (auto simp: ring_buf_next.simps [of _ _ "b # bs"] Let_def split: list.split)
qed

lemma next_contract: "event_source (ring_buf_source_ops pop arrive get_dropped) owed arrived"
proof unfold_locales
  fix env :: "'b list \<times> bool" and s s' r
  show "\<exists>new. arrived s' = arrived s @ new \<and> delivered r @ owed s' = owed s @ new"
    if "src_next (ring_buf_source_ops pop arrive get_dropped) env s = (r, s')"
    using that next_owes [of "fst env" "snd env" s r s']
    by (auto simp: ring_buf_source_ops_def arrived_def map_filter_append split_beta)
  show "fst (src_next (ring_buf_source_ops pop arrive get_dropped) env s) \<noteq> Hangs"
    by (simp add: ring_buf_source_ops_def split_beta next_never_hangs)
qed

end

sublocale ring_feed \<subseteq> event_source "ring_buf_source_ops pop arrive get_dropped" owed arrived for get_dropped
  by (rule next_contract)

section \<open>On the probe's own ring\<close>

context ring_journal
begin

lemma mark_victims_add:
  assumes "bpf_output bpf = put"
  shows "\<exists>new. contents (EVENTS (mark_victims bpf pad fires s)) = contents (EVENTS s) @ new
    \<and> journal (EVENTS (mark_victims bpf pad fires s)) = journal (EVENTS s) @ new"
proof (induction fires arbitrary: s)
  case Nil
  then show ?case by simp
next
  case (Cons f fires)
  obtain ctx cpu where f: "f = (ctx, cpu)" by (cases f)
  have "\<exists>new. contents (EVENTS (snd (mark_victim bpf pad ctx cpu s))) = contents (EVENTS s) @ new
      \<and> journal (EVENTS (snd (mark_victim bpf pad ctx cpu s))) = journal (EVENTS s) @ new"
    by (auto simp: mark_victim_def Let_def assms split: option.split dest: output_contents put_journal)
  with Cons [of "snd (mark_victim bpf pad ctx cpu s)"] show ?case by (auto simp: f)
qed

lemma probe_feeds: "bpf_output bpf = put \<Longrightarrow> ring_feed put pop contents journal (mark_victims bpf pad)"
  by unfold_locales (rule mark_victims_add)

end

text \<open>The kernel with a bounded ring and its journal: while the source waits, kills fire on some CPUs.\<close>

type_synonym logged_ring = "bounded_ring \<times> u8 list list"

definition kernel_bpf ::
  "(nat \<Rightarrow> nat \<Rightarrow> u8 list option) \<Rightarrow> (nat \<Rightarrow> u8 list \<Rightarrow> u8 list) \<Rightarrow> logged_ring bpf_helpers" where
  "kernel_bpf read_mem read_str = \<lparr>bpf_read = read_mem, bpf_read_str = read_str, bpf_output = logged_put br_output\<rparr>"

interpretation probe_ring:
  ring_feed "logged_put br_output" "logged_pop br_pop" "\<lambda>rl. br_records (fst rl)" snd
    "mark_victims (kernel_bpf read_mem read_str) pad" for read_mem read_str pad
  by (rule lr.probe_feeds) (simp add: kernel_bpf_def)

text \<open>
  (C18) A call of \<open>next\<close> loses nothing and invents nothing, over any bursts of firings while it
  waits: it comes back; with \<open>new\<close> the records that the kernel added to the ring meanwhile, the
  event it yields is the oldest one owed, and what it still owes is exactly the rest and the
  events in \<open>new\<close>; when nothing is owed and nothing is added it yields no event. A call that was
  dropped while waiting (the heartbeat won) has given up nothing: it is cancel-safe.
\<close>

theorem next_is_lossless_and_cancel_safe:
  assumes "ring_journal put pop contents journal" "bpf_output bpf = put"
    and "owed_by = (\<lambda>s. rs_pending s @ List.map_filter decode_record (contents (EVENTS (rs_maps s))))"
    and "ring_buf_next pop (mark_victims bpf pad) batches fails s = (r, s')"
  shows "\<exists>new. journal (EVENTS (rs_maps s')) = journal (EVENTS (rs_maps s)) @ new
       \<and> (case r of
            Ready (Some ev) \<Rightarrow> ev # owed_by s' = owed_by s @ List.map_filter decode_record new
          | Ready None \<Rightarrow> owed_by s' = owed_by s @ List.map_filter decode_record new
          | Pending \<Rightarrow> owed_by s' = owed_by s @ List.map_filter decode_record new
          | Hangs \<Rightarrow> False)"
proof -
  note feed = ring_journal.probe_feeds [OF assms(1,2), of pad]
  have owed: "owed_by = ring_feed.owed contents"
    using assms(3) by (simp add: fun_eq_iff ring_feed.owed_def [OF feed])
  from ring_feed.next_owes [OF feed assms(4)] obtain new
    where "journal (EVENTS (rs_maps s')) = journal (EVENTS (rs_maps s)) @ new"
      "delivered r @ owed_by s' = owed_by s @ List.map_filter decode_record new" unfolding owed by blast
  moreover have "r \<noteq> Hangs" using ring_feed.next_never_hangs [OF feed, of batches fails s] assms(4) by simp
  ultimately show ?thesis by (intro exI [of _ new]) (auto split: poll.split option.split)
qed

text \<open>Nothing arrives, so nothing is delivered.\<close>

definition logged_probe :: "logged_ring probe_state" where
  "logged_probe = \<lparr>EVENTS = (br_new EVENTS_byte_size, []), DROPPED = replicate 2 0\<rparr>"

theorem next_is_lossless_and_cancel_safe_witness:
  "\<exists>r s'. ring_buf_next (logged_pop br_pop)
        (mark_victims (kernel_bpf (bpf_read sample_bpf) (bpf_read_str sample_bpf)) (\<lambda>_. 0))
        [[]] False \<lparr>rs_maps = logged_probe, rs_pending = []\<rparr> = (r, s')
     \<and> delivered r = [] \<and> rs_pending s' = []"
proof -
  let ?bpf = "kernel_bpf (bpf_read sample_bpf) (bpf_read_str sample_bpf)"
  obtain r s' where e: "ring_buf_next (logged_pop br_pop) (mark_victims ?bpf (\<lambda>_. 0))
      [[]] False \<lparr>rs_maps = logged_probe, rs_pending = []\<rparr> = (r, s')" by fastforce
  have "drain (logged_pop br_pop) (br_new EVENTS_byte_size, []) [] = Some ((br_new EVENTS_byte_size, []), [])"
    by (simp add: drain_def while_option_unfold logged_pop_def br_pop_def br_new_def)
  with e have journal_same: "snd (EVENTS (rs_maps s')) = []"
    by (auto simp: ring_buf_next.simps logged_probe_def Let_def)
  have "bpf_output ?bpf = logged_put br_output" by (simp add: kernel_bpf_def)
  from next_is_lossless_and_cancel_safe [OF lr.ring_journal_axioms this refl e] journal_same
  have "delivered r = [] \<and> rs_pending s' = []"
    by (cases r) (auto simp: logged_probe_def br_new_def map_filter_simps split: option.splits)
  with e show ?thesis by blast
qed

section \<open>Starting the probe\<close>

text \<open>
  \<open>RingBufSource::new\<close>: its calls in order, each of which can fail, with the error handed up
  by \<open>?\<close>. Only the rlimit is allowed to fail: that is a warning. The results of \<open>aya\<close> and
  \<open>libc\<close> are a parameter.
\<close>

datatype startup_call =
    Verify_layout | Set_memlock_rlimit | Load_object | Find_program | Load_program | Attach
  | Take_map string | Open_ring | Register_fd | Open_dropped

definition startup_calls :: "startup_call list" where
  "startup_calls =
     [Verify_layout, Set_memlock_rlimit, Load_object, Find_program, Load_program, Attach,
      Take_map ''EVENTS'', Open_ring, Register_fd, Take_map ''DROPPED'', Open_dropped]"

fun startup_result :: "file_reader \<Rightarrow> (startup_call \<Rightarrow> string + unit) \<Rightarrow> startup_call \<Rightarrow> string + unit" where
  "startup_result fs aya Verify_layout = verify_kernel_layout fs"
| "startup_result fs aya Set_memlock_rlimit = Inr ()"
| "startup_result fs aya call = aya call"

text \<open>The result and the calls that were made.\<close>

fun run_startup :: "(startup_call \<Rightarrow> string + unit) \<Rightarrow> startup_call list \<Rightarrow> (string + unit) \<times> startup_call list" where
  "run_startup f [] = (Inr (), [])"
| "run_startup f (c # cs) =
     (case f c of
        Inl e \<Rightarrow> (Inl e, [c])
      | Inr _ \<Rightarrow> (let (r, made) = run_startup f cs in (r, c # made)))"

definition ring_buf_source_new ::
  "file_reader \<Rightarrow> (startup_call \<Rightarrow> string + unit) \<Rightarrow> 'ring probe_state
     \<Rightarrow> (string + 'ring ring_buf_source) \<times> startup_call list" where
  "ring_buf_source_new fs aya maps =
     (let (r, made) = run_startup (startup_result fs aya) startup_calls in
      (case r of Inl e \<Rightarrow> Inl e | Inr _ \<Rightarrow> Inr \<lparr>rs_maps = maps, rs_pending = []\<rparr>, made))"

lemma run_startup_ok: "fst (run_startup f cs) = Inr () \<longleftrightarrow> (\<forall>c \<in> set cs. f c = Inr ())"
  by (induction cs) (auto simp: split_beta split: sum.split)

text \<open>
  (C27) The probe is never attached to a kernel whose layout has not been verified: nothing of
  it is even loaded unless the check passed, and start-up then succeeds exactly when every
  later call but the rlimit does.
\<close>

theorem nothing_loaded_unverified:
  "(case ring_buf_source_new fs aya maps of (r, made) \<Rightarrow>
      (verify_kernel_layout fs \<noteq> Inr () \<longrightarrow> made = [Verify_layout] \<and> (\<forall>s. r \<noteq> Inr s))
      \<and> ((\<exists>s. r = Inr s) \<longleftrightarrow> verify_kernel_layout fs = Inr ()
            \<and> (\<forall>c \<in> set startup_calls - {Verify_layout, Set_memlock_rlimit}. aya c = Inr ())))"
proof -
  obtain r made where run: "run_startup (startup_result fs aya) startup_calls = (r, made)" by fastforce
  have unver: "made = [Verify_layout] \<and> r \<noteq> Inr ()" if "verify_kernel_layout fs \<noteq> Inr ()"
    using run that by (auto simp: startup_calls_def split: sum.splits)
  have "r = Inr () \<longleftrightarrow> (\<forall>c \<in> set startup_calls. startup_result fs aya c = Inr ())"
    using run_startup_ok [of "startup_result fs aya" startup_calls] run by simp
  also have "\<dots> \<longleftrightarrow> verify_kernel_layout fs = Inr ()
      \<and> (\<forall>c \<in> set startup_calls - {Verify_layout, Set_memlock_rlimit}. aya c = Inr ())"
    by (auto simp: startup_calls_def)
  finally show ?thesis
    using unver run by (auto simp: ring_buf_source_new_def split: sum.split)
qed

theorem nothing_loaded_unverified_witness:
  "snd (ring_buf_source_new (\<lambda>path. Inr PRE_6_9) (\<lambda>c. Inr ()) sample_probe) = [Verify_layout]"
proof -
  obtain r made where n: "ring_buf_source_new (\<lambda>path. Inr PRE_6_9) (\<lambda>c. Inr ()) sample_probe = (r, made)"
    by fastforce
  have "check_layout PRE_6_9 \<noteq> []"
    by (simp add: check_layout_def parse_PRE_6_9 REQUIRED_FIELDS_def Field_new_def check_field_def
        layout_find_def map_filter_simps)
  then have "verify_kernel_layout (\<lambda>path. Inr PRE_6_9) \<noteq> Inr ()"
    by (simp add: verify_kernel_layout_def read_format_def FORMAT_PATHS_def Let_def)
  with nothing_loaded_unverified [of "\<lambda>path. Inr PRE_6_9" "\<lambda>c. Inr ()" sample_probe] n show ?thesis by simp
qed

section \<open>No record waits unnoticed\<close>

text \<open>
  Records can also arrive while the source drains. The reactor keeps a count of readiness
  edges; the guard remembers the count it was made at, and clearing readiness forgets only the
  edges up to there (that is \<open>tokio\<close>'s contract). The kernel signals an edge at the latest when
  a record is committed to an empty ring, and may signal more. Each pop, the clearing and every
  arrival are steps of their own.
\<close>

datatype stage = Top | Parked | Draining nat | Drained nat

record 'ring reactor =
  rc_ring :: 'ring
  rc_pending :: "oom_kill_event list"
  rc_edges :: nat
  rc_cleared :: nat
  rc_stage :: stage
  rc_given :: "oom_kill_event list" \<comment> \<open>what \<open>next\<close> has returned so far\<close>

inductive reactor_step ::
  "('ring \<Rightarrow> u8 list \<Rightarrow> 'ring option) \<Rightarrow> ('ring \<Rightarrow> (u8 list \<times> 'ring) option)
     \<Rightarrow> u8 list list \<Rightarrow> 'ring reactor \<Rightarrow> 'ring reactor \<Rightarrow> bool" for put pop where
  arrives: "put (rc_ring s) data = Some ring \<Longrightarrow> (pop (rc_ring s) = None \<Longrightarrow> 0 < n) \<Longrightarrow>
    reactor_step put pop [data] s (s\<lparr>rc_ring := ring, rc_edges := rc_edges s + n\<rparr>)"
| gives: "rc_stage s = Top \<Longrightarrow> rc_pending s = ev # rest \<Longrightarrow>
    reactor_step put pop [] s (s\<lparr>rc_pending := rest, rc_given := rc_given s @ [ev]\<rparr>)"
| parks: "rc_stage s = Top \<Longrightarrow> rc_pending s = [] \<Longrightarrow>
    reactor_step put pop [] s (s\<lparr>rc_stage := Parked\<rparr>)"
| cancelled: "rc_stage s = Parked \<Longrightarrow> reactor_step put pop [] s (s\<lparr>rc_stage := Top\<rparr>)"
| readable: "rc_stage s = Parked \<Longrightarrow> rc_cleared s < rc_edges s \<Longrightarrow>
    reactor_step put pop [] s (s\<lparr>rc_stage := Draining (rc_edges s)\<rparr>)"
| takes: "rc_stage s = Draining tick \<Longrightarrow> pop (rc_ring s) = Some (data, ring) \<Longrightarrow>
    reactor_step put pop [] s (s\<lparr>rc_ring := ring,
      rc_pending := (case decode_record data of Some ev \<Rightarrow> rc_pending s @ [ev] | None \<Rightarrow> rc_pending s)\<rparr>)"
| drained: "rc_stage s = Draining tick \<Longrightarrow> pop (rc_ring s) = None \<Longrightarrow>
    reactor_step put pop [] s (s\<lparr>rc_stage := Drained tick\<rparr>)"
| clears: "rc_stage s = Drained tick \<Longrightarrow>
    reactor_step put pop [] s (s\<lparr>rc_stage := Top, rc_cleared := tick\<rparr>)"

text \<open>Runs, with the records that have arrived.\<close>

inductive reactor_run ::
  "('ring \<Rightarrow> u8 list \<Rightarrow> 'ring option) \<Rightarrow> ('ring \<Rightarrow> (u8 list \<times> 'ring) option)
     \<Rightarrow> 'ring reactor \<Rightarrow> u8 list list \<Rightarrow> 'ring reactor \<Rightarrow> bool" for put pop s0 where
  run_start: "reactor_run put pop s0 [] s0"
| run_step: "reactor_run put pop s0 recs s \<Longrightarrow> reactor_step put pop new s s' \<Longrightarrow>
    reactor_run put pop s0 (recs @ new) s'"

definition reactor_new :: "'ring \<Rightarrow> 'ring reactor" where
  "reactor_new ring =
     \<lparr>rc_ring = ring, rc_pending = [], rc_edges = 0, rc_cleared = 0, rc_stage = Top, rc_given = []\<rparr>"

context ring_buf
begin

text \<open>An unread record has an edge that the guard of the moment will not clear.\<close>

definition noticed :: "'ring reactor \<Rightarrow> bool" where
  "noticed s \<longleftrightarrow>
     (case rc_stage s of
        Draining tick \<Rightarrow> tick \<le> rc_edges s
      | Drained tick \<Rightarrow> tick \<le> rc_edges s \<and> (contents (rc_ring s) = [] \<or> tick < rc_edges s)
      | _ \<Rightarrow> rc_cleared s \<le> rc_edges s \<and> (contents (rc_ring s) = [] \<or> rc_cleared s < rc_edges s))"

lemma noticed_step: "reactor_step put pop new s s' \<Longrightarrow> noticed s \<Longrightarrow> noticed s'"
proof (induction rule: reactor_step.induct)
  case (arrives s data ring n)
  have "contents (rc_ring s) = [] \<Longrightarrow> 0 < n" using arrives(2) pop_None [of "rc_ring s"] by simp
  with arrives(3) show ?case
    by (cases "contents (rc_ring s) = []") (auto simp: noticed_def split: stage.splits)
qed (auto simp: noticed_def pop_None split: stage.splits)

lemma delivered_step:
  "reactor_step put pop new s s' \<Longrightarrow>
    rc_given s' @ rc_pending s' @ decoded (rc_ring s')
      = rc_given s @ rc_pending s @ decoded (rc_ring s) @ List.map_filter decode_record new"
  by (induction rule: reactor_step.induct)
     (auto simp: map_filter_simps map_filter_append dest: output_contents pop_Some split: option.split)

lemma noticed_run:
  "reactor_run put pop (reactor_new ring) recs s \<Longrightarrow> contents ring = [] \<Longrightarrow> noticed s"
proof (induction rule: reactor_run.induct)
  case run_start
  then show ?case by (simp add: noticed_def reactor_new_def)
next
  case (run_step recs s new s')
  then show ?case by (simp add: noticed_step)
qed

lemma delivered_run:
  "reactor_run put pop (reactor_new ring) recs s \<Longrightarrow> contents ring = [] \<Longrightarrow>
    rc_given s @ rc_pending s @ decoded (rc_ring s) = List.map_filter decode_record recs"
proof (induction rule: reactor_run.induct)
  case run_start
  then show ?case by (simp add: reactor_new_def map_filter_simps)
next
  case (run_step recs s new s')
  with delivered_step [OF run_step(2)] show ?case by (simp add: map_filter_append)
qed

end

text \<open>
  (C19) No record can sit unnoticed: however arrivals, pops, clearing and cancellations fall,
  when the source is parked with a record in the ring the readiness wait can return; and at
  every moment what has been handed out, what is pending and what is in the ring are together
  exactly what arrived, in order, once.
\<close>

theorem no_record_waits_unnoticed:
  assumes "ring_buf put pop contents" "contents ring = []"
    and "reactor_run put pop (reactor_new ring) recs s"
  shows "(rc_stage s = Parked \<and> contents (rc_ring s) \<noteq> [] \<longrightarrow>
            reactor_step put pop [] s (s\<lparr>rc_stage := Draining (rc_edges s)\<rparr>))
       \<and> rc_given s @ rc_pending s @ List.map_filter decode_record (contents (rc_ring s))
           = List.map_filter decode_record recs"
proof -
  have "rc_stage s = Parked \<Longrightarrow> contents (rc_ring s) \<noteq> [] \<Longrightarrow> rc_cleared s < rc_edges s"
    using ring_buf.noticed_run [OF assms(1,3,2)] by (simp add: ring_buf.noticed_def [OF assms(1)])
  then show ?thesis
    using ring_buf.delivered_run [OF assms(1,3,2)] by (auto intro: reactor_step.readable)
qed

text \<open>A record that arrives right after the source has parked.\<close>

definition parked_reactor :: "bounded_ring reactor" where
  "parked_reactor = (reactor_new (br_new 96))\<lparr>rc_stage := Parked\<rparr>"

definition woken_reactor :: "bounded_ring reactor" where
  "woken_reactor = parked_reactor\<lparr>rc_ring := (br_new 96)\<lparr>br_records := [replicate 80 0]\<rparr>, rc_edges := 1\<rparr>"

lemma woken_run: "reactor_run br_output br_pop (reactor_new (br_new 96)) [replicate 80 0] woken_reactor"
proof -
  have "reactor_step br_output br_pop [] (reactor_new (br_new 96)) parked_reactor"
    unfolding parked_reactor_def by (rule parks) (simp_all add: reactor_new_def)
  moreover have "br_output (rc_ring parked_reactor) (replicate 80 0) = Some ((br_new 96)\<lparr>br_records := [replicate 80 0]\<rparr>)"
    by (simp add: parked_reactor_def reactor_new_def br_output_def br_new_def br_used_def record_space_def)
  from arrives [of br_output parked_reactor, OF this, of br_pop 1]
  have "reactor_step br_output br_pop [replicate 80 0] parked_reactor woken_reactor"
    by (simp add: woken_reactor_def parked_reactor_def reactor_new_def)
  ultimately show ?thesis using run_step [OF run_step [OF run_start]] by fastforce
qed

theorem no_record_waits_unnoticed_witness:
  "reactor_step br_output br_pop [] woken_reactor (woken_reactor\<lparr>rc_stage := Draining 1\<rparr>)"
  using no_record_waits_unnoticed [OF br.ring_buf_axioms _ woken_run]
  by (simp add: woken_reactor_def parked_reactor_def reactor_new_def br_new_def)

end
