(* ===== verification/Rust_Float.thy ===== *)
theory Rust_Float
  imports Prelude
begin

text \<open>
  The \<open>f64\<close> of the metric values. Every value the program stores in a metric is a
  non-negative integer: counters grow by \<open>1.0\<close> or by a \<open>u64\<close> cast with \<open>as f64\<close>, gauges
  are set to a \<open>u64\<close> cast with \<open>as f64\<close>. On these, IEEE 754 binary64 is the integers with a
  53-bit significand: \<open>as f64\<close> and \<open>+\<close> round to the nearest representable integer, ties to
  the even significand. The exponent range (up to \<open>2 ^ 1023\<close>) is out of reach of a sum of
  \<open>u64\<close> values in any run.
\<close>

section \<open>Rounding to a 53-bit significand\<close>

text \<open>How many low bits of \<open>n\<close> do not fit into the significand.\<close>

fun f64_exp :: "nat \<Rightarrow> nat" where
  "f64_exp n = (if n < 2 ^ 53 then 0 else Suc (f64_exp (n div 2)))"

declare f64_exp.simps [simp del]

text \<open>Round half to even, at the exponent of \<open>n\<close>.\<close>

definition round_at :: "nat \<Rightarrow> nat \<Rightarrow> nat" where
  "round_at e n =
     (let q = n div 2 ^ e; r = n mod 2 ^ e in
      (if 2 ^ e < 2 * r \<or> (2 ^ e = 2 * r \<and> odd q) then q + 1 else q) * 2 ^ e)"

definition round_f64 :: "nat \<Rightarrow> nat" where
  "round_f64 n = round_at (f64_exp n) n"

lemma round_at_0 [simp]: "round_at 0 n = n"
  by (simp add: round_at_def)

lemma f64_exp_small [simp]: "n < 2 ^ 53 \<Longrightarrow> f64_exp n = 0"
  by (simp add: f64_exp.simps)

lemma round_f64_exact [simp]: "n < 2 ^ 53 \<Longrightarrow> round_f64 n = n"
  by (simp add: round_f64_def)

lemma f64_exp_mono: "m \<le> n \<Longrightarrow> f64_exp m \<le> f64_exp n"
proof (induction n arbitrary: m rule: f64_exp.induct)
  case (1 n)
  show ?case
  proof (cases "m < 2 ^ 53")
    case True
    then show ?thesis by simp
  next
    case False
    with 1 have "f64_exp (m div 2) \<le> f64_exp (n div 2)" by (simp add: div_le_mono)
    with False 1 show ?thesis by (simp add: f64_exp.simps [of m] f64_exp.simps [of n])
  qed
qed

lemma f64_exp_upper: "n < 2 ^ 53 * 2 ^ f64_exp n"
proof (induction n rule: f64_exp.induct)
  case (1 n)
  then show ?case
    by (cases "n < 2 ^ 53") (auto simp: f64_exp.simps [of n])
qed

lemma f64_exp_lower: "0 < f64_exp n \<Longrightarrow> 2 ^ 52 * 2 ^ f64_exp n \<le> n"
proof (induction n rule: f64_exp.induct)
  case (1 n)
  then show ?case
    by (cases "n < 2 ^ 53"; cases "n div 2 < 2 ^ 53")
       (auto simp: f64_exp.simps [of n] f64_exp.simps [of "n div 2"])
qed

lemma round_at_mono_same:
  assumes "m \<le> n"
  shows "round_at e m \<le> round_at e n"
proof -
  let ?q = "\<lambda>k. k div 2 ^ e" and ?r = "\<lambda>k. k mod (2 ^ e :: nat)"
  have q: "?q m \<le> ?q n" using assms by (rule div_le_mono)
  show ?thesis
  proof (cases "?q m = ?q n")
    case True
    have "?r m \<le> ?r n"
      using assms True by (metis add_le_cancel_left div_mult_mod_eq mult.commute)
    with True show ?thesis by (auto simp: round_at_def Let_def)
  next
    case False
    with q have "?q m + 1 \<le> ?q n" by simp
    then have "(?q m + 1) * 2 ^ e \<le> ?q n * 2 ^ e" by (rule mult_le_mono1)
    moreover have "round_at e m \<le> (?q m + 1) * 2 ^ e" by (simp add: round_at_def Let_def)
    moreover have "?q n * 2 ^ e \<le> round_at e n" by (simp add: round_at_def Let_def)
    ultimately show ?thesis by linarith
  qed
qed

lemma round_at_le:
  assumes "n < k * 2 ^ e"
  shows "round_at e n \<le> k * 2 ^ e"
proof -
  have "n div 2 ^ e < k" using assms by (simp add: less_mult_imp_div_less)
  then have "(n div 2 ^ e + 1) * 2 ^ e \<le> k * 2 ^ e" by (intro mult_le_mono1) simp
  moreover have "round_at e n \<le> (n div 2 ^ e + 1) * 2 ^ e" by (simp add: round_at_def Let_def)
  ultimately show ?thesis by (rule order_trans [rotated])
qed

lemma round_at_ge:
  assumes "k * 2 ^ e \<le> n"
  shows "k * 2 ^ e \<le> round_at e n"
proof -
  have "k \<le> n div 2 ^ e" using assms by (simp add: less_eq_div_iff_mult_less_eq)
  then have "k * 2 ^ e \<le> n div 2 ^ e * 2 ^ e" by simp
  moreover have "n div 2 ^ e * 2 ^ e \<le> round_at e n" by (simp add: round_at_def Let_def)
  ultimately show ?thesis by (rule order_trans)
qed

lemma round_f64_mono:
  assumes "m \<le> n"
  shows "round_f64 m \<le> round_f64 n"
proof (cases "f64_exp m = f64_exp n")
  case True
  with assms show ?thesis by (simp add: round_f64_def round_at_mono_same)
next
  case False
  with f64_exp_mono [OF assms] have lt: "f64_exp m < f64_exp n" by simp
  have "round_f64 m \<le> 2 ^ 53 * 2 ^ f64_exp m"
    unfolding round_f64_def by (rule round_at_le) (rule f64_exp_upper)
  also have "\<dots> = 2 ^ 52 * 2 ^ Suc (f64_exp m)" by simp
  also have "\<dots> \<le> 2 ^ 52 * 2 ^ f64_exp n"
    using lt by (intro mult_le_mono2 power_increasing) auto
  also have "\<dots> \<le> round_f64 n"
    unfolding round_f64_def using lt by (intro round_at_ge f64_exp_lower) simp
  finally show ?thesis .
qed

lemma round_f64_max: "round_f64 (max m n) = max (round_f64 m) (round_f64 n)"
  using round_f64_mono [of m n] round_f64_mono [of n m] by (auto simp: max_def)

section \<open>The type\<close>

datatype f64 = F64 (f64_nat: nat)

instantiation f64 :: "{zero, one, plus}"
begin

definition zero_f64 :: f64 where "zero_f64 = F64 0"
definition one_f64 :: f64 where "one_f64 = F64 1"
definition plus_f64 :: "f64 \<Rightarrow> f64 \<Rightarrow> f64" where
  "plus_f64 a b = F64 (round_f64 (f64_nat a + f64_nat b))"

instance ..

end

instantiation f64 :: linorder
begin

definition less_eq_f64 :: "f64 \<Rightarrow> f64 \<Rightarrow> bool" where
  "less_eq_f64 a b \<longleftrightarrow> f64_nat a \<le> f64_nat b"
definition less_f64 :: "f64 \<Rightarrow> f64 \<Rightarrow> bool" where
  "less_f64 a b \<longleftrightarrow> f64_nat a < f64_nat b"

instance
  by standard (auto simp: less_eq_f64_def less_f64_def f64.expand)

end

text \<open>\<open>x as f64\<close> for an unsigned integer.\<close>

definition as_f64 :: "'a::len word \<Rightarrow> f64" where
  "as_f64 w = F64 (round_f64 (unat w))"

lemma f64_nat_0 [simp]: "f64_nat 0 = 0"
  by (simp add: zero_f64_def)

lemma f64_nat_1 [simp]: "f64_nat 1 = 1"
  by (simp add: one_f64_def)

lemma f64_nat_plus: "f64_nat (a + b) = round_f64 (f64_nat a + f64_nat b)"
  by (simp add: plus_f64_def)

lemma f64_nat_as_f64: "f64_nat (as_f64 w) = round_f64 (unat w)"
  by (simp add: as_f64_def)

lemma f64_zero_le [simp]: "0 \<le> (x :: f64)"
  by (simp add: less_eq_f64_def)

lemma as_f64_0 [simp]: "as_f64 0 = 0"
  by (simp add: as_f64_def zero_f64_def)

lemma as_f64_mono: "a \<le> b \<Longrightarrow> as_f64 a \<le> as_f64 b"
  by (simp add: less_eq_f64_def f64_nat_as_f64 round_f64_mono word_le_nat_alt)

lemma as_f64_max: "as_f64 (max a b) = max (as_f64 a) (as_f64 b)"
  using as_f64_mono [of a b] as_f64_mono [of b a]
  by (cases "a \<le> b") (auto simp: max_def intro: antisym)

text \<open>Adding exact values is exact while the sum has at most 53 bits.\<close>

lemma f64_plus_exact:
  "m + n < 2 ^ 53 \<Longrightarrow> F64 m + F64 n = F64 (m + n)"
  by (simp add: plus_f64_def)

lemma as_f64_exact: "unat w < 2 ^ 53 \<Longrightarrow> as_f64 w = F64 (unat w)"
  by (simp add: as_f64_def)

text \<open>Addition never makes a value smaller: the counters are monotone.\<close>

lemma f64_repr_plus_ge:
  assumes "round_f64 (f64_nat x) = f64_nat x"
  shows "x \<le> x + d"
proof -
  have "round_f64 (f64_nat x) \<le> round_f64 (f64_nat x + f64_nat d)"
    by (rule round_f64_mono) simp
  with assms show ?thesis by (simp add: less_eq_f64_def f64_nat_plus)
qed

end
