(* ===== verification/Label_Vec.thy ===== *)
theory Label_Vec
  imports Rust_Float
begin

text \<open>
  \<open>CounterVec\<close> and \<open>GaugeVec\<close> of the \<open>prometheus\<close> crate, which is not part of the sources:
  a record of the operations the collector calls, and as the laws of a locale what the crate
  documents of them. \<open>with_label_values\<close> returns the child with these labels and creates it
  with value zero when there is none; the crate panics when the number of values is not that
  of the label names, so every law asks for the right number. The interpretation is a family
  as an association list from label values to the value of the child.
\<close>

record 'v prom =
  pm_new :: "string \<Rightarrow> string list \<Rightarrow> 'v" \<comment> \<open>metric name, label names\<close>
  pm_with :: "'v \<Rightarrow> string list \<Rightarrow> 'v" \<comment> \<open>\<open>with_label_values\<close>: create if absent\<close>
  pm_get :: "'v \<Rightarrow> string list \<Rightarrow> f64 option" \<comment> \<open>the child's value, as gathered\<close>
  pm_inc_by :: "'v \<Rightarrow> string list \<Rightarrow> f64 \<Rightarrow> 'v"
  pm_set :: "'v \<Rightarrow> string list \<Rightarrow> f64 \<Rightarrow> 'v"
  pm_remove :: "'v \<Rightarrow> string list \<Rightarrow> 'v" \<comment> \<open>\<open>remove_label_values\<close>; absent is an error the caller ignores\<close>

text \<open>The calls the collector makes: \<open>with_label_values(ls).inc_by(d)\<close>, \<open>.inc()\<close> and \<open>.set(x)\<close>.\<close>

definition child_inc_by :: "'v prom \<Rightarrow> string list \<Rightarrow> f64 \<Rightarrow> 'v \<Rightarrow> 'v" where
  "child_inc_by P ls d v = pm_inc_by P (pm_with P v ls) ls d"

definition child_inc :: "'v prom \<Rightarrow> string list \<Rightarrow> 'v \<Rightarrow> 'v" where
  "child_inc P ls v = child_inc_by P ls 1 v"

definition child_set :: "'v prom \<Rightarrow> string list \<Rightarrow> f64 \<Rightarrow> 'v \<Rightarrow> 'v" where
  "child_set P ls x v = pm_set P (pm_with P v ls) ls x"

definition value_or_0 :: "f64 option \<Rightarrow> f64" where
  "value_or_0 o' = (case o' of None \<Rightarrow> 0 | Some x \<Rightarrow> x)"

lemma value_or_0_simps [simp]: "value_or_0 None = 0" "value_or_0 (Some x) = x"
  by (simp_all add: value_or_0_def)

locale prom_vec =
  fixes P :: "'v prom"
    and arity :: "'v \<Rightarrow> nat"
  assumes get_new: "pm_get P (pm_new P name names) ls = None"
    and arity_new: "arity (pm_new P name names) = length names"
    and get_with: "length ls = arity v \<Longrightarrow>
      pm_get P (pm_with P v ls) k = (if k = ls then Some (value_or_0 (pm_get P v ls)) else pm_get P v k)"
    and arity_with: "arity (pm_with P v ls) = arity v"
    and get_inc_by: "pm_get P v ls = Some x \<Longrightarrow>
      pm_get P (pm_inc_by P v ls d) k = (if k = ls then Some (x + d) else pm_get P v k)"
    and arity_inc_by: "arity (pm_inc_by P v ls d) = arity v"
    and get_set: "pm_get P v ls = Some x \<Longrightarrow>
      pm_get P (pm_set P v ls y) k = (if k = ls then Some y else pm_get P v k)"
    and arity_set: "arity (pm_set P v ls y) = arity v"
    and get_remove: "length ls = arity v \<Longrightarrow>
      pm_get P (pm_remove P v ls) k = (if k = ls then None else pm_get P v k)"
    and arity_remove: "arity (pm_remove P v ls) = arity v"
begin

lemmas arity_laws [simp] = arity_new arity_with arity_inc_by arity_set arity_remove

lemma arity_child [simp]:
  "arity (child_inc_by P ls d v) = arity v" "arity (child_inc P ls v) = arity v"
  "arity (child_set P ls x v) = arity v"
  by (simp_all add: child_inc_by_def child_inc_def child_set_def)

lemma get_child_inc_by [simp]:
  "length ls = arity v \<Longrightarrow>
    pm_get P (child_inc_by P ls d v) k
      = (if k = ls then Some (value_or_0 (pm_get P v ls) + d) else pm_get P v k)"
  by (simp add: child_inc_by_def get_inc_by [where x = "value_or_0 (pm_get P v ls)"] get_with)

lemma get_child_inc [simp]:
  "length ls = arity v \<Longrightarrow>
    pm_get P (child_inc P ls v) k
      = (if k = ls then Some (value_or_0 (pm_get P v ls) + 1) else pm_get P v k)"
  by (simp add: child_inc_def)

lemma get_child_set [simp]:
  "length ls = arity v \<Longrightarrow>
    pm_get P (child_set P ls x v) k = (if k = ls then Some x else pm_get P v k)"
  by (simp add: child_set_def get_set [where x = "value_or_0 (pm_get P v ls)"] get_with)

end

section \<open>A family as an association list\<close>

record family =
  fam_name :: string
  fam_labels :: "string list"
  fam_children :: "(string list \<times> f64) list"

definition assoc_prom :: "family prom" where
  "assoc_prom =
     \<lparr>pm_new = (\<lambda>name labels. \<lparr>fam_name = name, fam_labels = labels, fam_children = []\<rparr>),
      pm_with = (\<lambda>v ls. if length ls = length (fam_labels v) \<and> map_of (fam_children v) ls = None
                        then v\<lparr>fam_children := (ls, 0) # fam_children v\<rparr> else v),
      pm_get = (\<lambda>v ls. map_of (fam_children v) ls),
      pm_inc_by = (\<lambda>v ls d. v\<lparr>fam_children :=
                     map (\<lambda>(k, x). (k, if k = ls then x + d else x)) (fam_children v)\<rparr>),
      pm_set = (\<lambda>v ls y. v\<lparr>fam_children :=
                     map (\<lambda>(k, x). (k, if k = ls then y else x)) (fam_children v)\<rparr>),
      pm_remove = (\<lambda>v ls. v\<lparr>fam_children := filter (\<lambda>(k, x). k \<noteq> ls) (fam_children v)\<rparr>)\<rparr>"

definition family_arity :: "family \<Rightarrow> nat" where
  "family_arity v = length (fam_labels v)"

lemma map_of_map_at:
  "map_of (map (\<lambda>(k, x). (k, if k = ls then f x else x)) m) k'
     = (if k' = ls then map_option f (map_of m ls) else map_of m k')"
  by (induction m) auto

lemma map_of_filter_not_key:
  "map_of (filter (\<lambda>(k, x). k \<noteq> ls) m) k' = (if k' = ls then None else map_of m k')"
  by (induction m) auto

interpretation assoc: prom_vec assoc_prom family_arity
  by unfold_locales
     (auto simp: assoc_prom_def family_arity_def map_of_map_at map_of_filter_not_key
       map_of_map_at [where f = "\<lambda>x. y" for y] split: option.splits)

end
