(* ===== verification/Resolution.thy ===== *)
theory Resolution
  imports Events
begin

text \<open>
  \<open>oom-watcher/src/resolve.rs\<close> and \<open>oom-watcher/src/enrich.rs\<close>: the three outcomes of resolving
  a PID, their collapse to an optional identity, and the construction of an enriched event.
  An \<open>anyhow::Error\<close> is its message.
\<close>

datatype resolution_outcome =
    Found container_identity
  | NotFound
  | Failed string

fun outcome_identity :: "resolution_outcome \<Rightarrow> container_identity option" where
  "outcome_identity (Found identity) = Some identity"
| "outcome_identity NotFound = None"
| "outcome_identity (Failed e) = None"

definition enrich ::
  "oom_kill_event \<Rightarrow> string option \<Rightarrow> container_identity option \<Rightarrow> u64 \<Rightarrow> enriched_oom_event" where
  "enrich raw_event node_name identity timestamp =
     (let (namespace, pod_name, container_name, container_id, image_id) =
            (case identity of
               Some i \<Rightarrow> (Some (ci_namespace i), Some (ci_pod_name i), Some (ci_container_name i),
                          Some (ci_container_id i), Some (ci_image_id i))
             | None \<Rightarrow> (None, None, None, None, None))
      in \<lparr>en_raw_event = raw_event, en_node_name = node_name, en_namespace = namespace,
          en_pod_name = pod_name, en_container_name = container_name,
          en_container_id = container_id, en_image_id = image_id, en_timestamp = timestamp\<rparr>)"

lemma enrich_simps [simp]:
  "en_raw_event (enrich r n i t) = r" "en_node_name (enrich r n i t) = n"
  "en_timestamp (enrich r n i t) = t"
  "en_namespace (enrich r n i t) = map_option ci_namespace i"
  "en_pod_name (enrich r n i t) = map_option ci_pod_name i"
  "en_container_name (enrich r n i t) = map_option ci_container_name i"
  "en_container_id (enrich r n i t) = map_option ci_container_id i"
  "en_image_id (enrich r n i t) = map_option ci_image_id i"
  by (simp_all add: enrich_def split: option.split)

end
