(* ===== verification/Metrics.thy ===== *)
theory Metrics
  imports Label_Vec Resolution
begin

text \<open>
  \<open>oom-watcher/src/metrics.rs\<close>: the Prometheus adapter. \<open>collector\<close> holds the seven metric
  families and the three pieces of bookkeeping; every operation takes the \<open>prometheus\<close> crate's
  operations \<open>P\<close> as its first argument. The mutexes only serialise access (their poisoning is
  recovered from), so a locked section is a plain read and write of the state; how the
  sections of concurrent tasks interleave is the subject of another theory.
\<close>

section \<open>Constants and labels\<close>

definition MEMORY_TYPES :: "string list" where
  "MEMORY_TYPES = [''total_vm'', ''anon_rss'', ''file_rss'', ''shmem_rss'']"

definition DELETED_POD_GRACE_SECONDS :: u64 where
  "DELETED_POD_GRACE_SECONDS = 120"

definition PER_CONTAINER_LABELS :: "string list" where
  "PER_CONTAINER_LABELS = [''node'', ''namespace'', ''pod'', ''container'', ''container_id'', ''image_id'']"

definition memory_values :: "oom_kill_event \<Rightarrow> u64 list" where
  "memory_values raw = [ev_total_vm raw, ev_anon_rss raw, ev_file_rss raw, ev_shmem_rss raw]"

record series_key =
  sk_node :: string
  sk_namespace :: string
  sk_pod :: string
  sk_container :: string
  sk_container_id :: string
  sk_image_id :: string

definition labels :: "series_key \<Rightarrow> string list" where
  "labels key =
     [sk_node key, sk_namespace key, sk_pod key, sk_container key, sk_container_id key,
      sk_image_id key]"

definition memory_labels :: "series_key \<Rightarrow> string \<Rightarrow> string list" where
  "memory_labels key memory_type =
     [sk_node key, sk_namespace key, sk_pod key, sk_container key, memory_type]"

definition shares_memory_series_with :: "series_key \<Rightarrow> series_key \<Rightarrow> bool" where
  "shares_memory_series_with self other \<longleftrightarrow>
     sk_node self = sk_node other \<and> sk_namespace self = sk_namespace other
     \<and> sk_pod self = sk_pod other \<and> sk_container self = sk_container other"

lemma labels_inject [simp]: "labels k = labels k' \<longleftrightarrow> k = k'"
  by (auto simp: labels_def)

lemma memory_labels_eq_iff [simp]:
  "memory_labels k t = memory_labels k' t' \<longleftrightarrow> shares_memory_series_with k k' \<and> t = t'"
  by (auto simp: memory_labels_def shares_memory_series_with_def)

lemma length_labels [simp]: "length (labels k) = 6" "length (memory_labels k t) = 5"
  by (simp_all add: labels_def memory_labels_def)

lemma shares_refl [simp]: "shares_memory_series_with k k"
  by (simp add: shares_memory_series_with_def)

lemma shares_sym: "shares_memory_series_with k k' \<Longrightarrow> shares_memory_series_with k' k"
  by (simp add: shares_memory_series_with_def)

lemma shares_trans:
  "shares_memory_series_with k l \<Longrightarrow> shares_memory_series_with l m \<Longrightarrow> shares_memory_series_with k m"
  by (simp add: shares_memory_series_with_def)

section \<open>The collector\<close>

record 'v collector =
  oom_kills_total :: 'v
  oom_kills_per_node_total :: 'v
  oom_memory_usage_bytes :: 'v
  oom_last_timestamp :: 'v
  oom_resolution_failures_total :: 'v
  oom_events_dropped_total :: 'v
  oom_series_evicted_total :: 'v
  last_dropped_total :: u64
  last_seen :: "(series_key, u64) hash_map"
  deleted_after :: "(string \<times> string, u64) hash_map"

definition collector_new :: "'v prom \<Rightarrow> 'v collector" where
  "collector_new P =
     \<lparr>oom_kills_total = pm_new P ''oom_kills_total'' PER_CONTAINER_LABELS,
      oom_kills_per_node_total = pm_new P ''oom_kills_per_node_total'' [''node''],
      oom_memory_usage_bytes = pm_new P ''oom_memory_usage_bytes''
        [''node'', ''namespace'', ''pod'', ''container'', ''memory_type''],
      oom_last_timestamp = pm_new P ''oom_last_timestamp'' PER_CONTAINER_LABELS,
      oom_resolution_failures_total = pm_new P ''oom_resolution_failures_total'' [''node'', ''reason''],
      oom_events_dropped_total = pm_new P ''oom_events_dropped_total'' [''node''],
      oom_series_evicted_total = pm_new P ''oom_series_evicted_total'' [''node''],
      last_dropped_total = 0, last_seen = [], deleted_after = []\<rparr>"

section \<open>Recording\<close>

text \<open>\<open>event.field.as_deref().unwrap_or("unknown")\<close>.\<close>

definition or_unknown :: "string option \<Rightarrow> string" where
  "or_unknown o' = (case o' of None \<Rightarrow> ''unknown'' | Some s \<Rightarrow> s)"

definition event_key :: "enriched_oom_event \<Rightarrow> series_key" where
  "event_key event =
     \<lparr>sk_node = or_unknown (en_node_name event), sk_namespace = or_unknown (en_namespace event),
      sk_pod = or_unknown (en_pod_name event), sk_container = or_unknown (en_container_name event),
      sk_container_id = or_unknown (en_container_id event),
      sk_image_id = or_unknown (en_image_id event)\<rparr>"

text \<open>
  One turn of the gauge loop: kilobytes to bytes in \<open>u64\<close> (wrapping, as release builds do),
  then the peak.
\<close>

definition raise_gauge :: "'v prom \<Rightarrow> string list \<Rightarrow> u64 \<Rightarrow> 'v \<Rightarrow> 'v" where
  "raise_gauge P ls kilobytes v =
     (let v' = pm_with P v ls; bytes = as_f64 (kilobytes * 1024) in
      case pm_get P v' ls of
        None \<Rightarrow> v'
      | Some old \<Rightarrow> if old < bytes then pm_set P v' ls bytes else v')"

definition raise_gauges :: "'v prom \<Rightarrow> series_key \<Rightarrow> oom_kill_event \<Rightarrow> 'v \<Rightarrow> 'v" where
  "raise_gauges P key raw v =
     fold (\<lambda>(memory_type, kilobytes). raise_gauge P (memory_labels key memory_type) kilobytes)
       (zip MEMORY_TYPES (memory_values raw)) v"

definition record_oom_event :: "'v prom \<Rightarrow> enriched_oom_event \<Rightarrow> 'v collector \<Rightarrow> 'v collector" where
  "record_oom_event P event c =
     (let key = event_key event;
          c1 = c\<lparr>oom_kills_total := child_inc P (labels key) (oom_kills_total c)\<rparr>;
          c2 = c1\<lparr>oom_kills_per_node_total :=
                  child_inc P [sk_node key] (oom_kills_per_node_total c1)\<rparr>;
          c3 = c2\<lparr>oom_memory_usage_bytes :=
                  raise_gauges P key (en_raw_event event) (oom_memory_usage_bytes c2)\<rparr>;
          c4 = c3\<lparr>oom_last_timestamp :=
                  child_set P (labels key) (as_f64 (en_timestamp event)) (oom_last_timestamp c3)\<rparr>
      in c4\<lparr>last_seen := hm_insert key (en_timestamp event) (last_seen c4)\<rparr>)"

text \<open>A \<open>Found\<close> outcome returns early: successes are implicit in \<open>oom_kills_total\<close>.\<close>

definition record_resolution_outcome ::
  "'v prom \<Rightarrow> string \<Rightarrow> resolution_outcome \<Rightarrow> 'v collector \<Rightarrow> 'v collector" where
  "record_resolution_outcome P node outcome c =
     (let count = (\<lambda>reason. c\<lparr>oom_resolution_failures_total :=
            child_inc P [node, reason] (oom_resolution_failures_total c)\<rparr>)
      in case outcome of
           Found identity \<Rightarrow> c
         | NotFound \<Rightarrow> count ''not_found''
         | Failed e \<Rightarrow> count ''error'')"

definition record_dropped_total :: "'v prom \<Rightarrow> string \<Rightarrow> u64 \<Rightarrow> 'v collector \<Rightarrow> 'v collector" where
  "record_dropped_total P node tot c =
     (let previous = last_dropped_total c; c1 = c\<lparr>last_dropped_total := tot\<rparr> in
      case checked_sub tot previous of
        None \<Rightarrow> c1
      | Some delta \<Rightarrow>
          if 0 < delta
          then c1\<lparr>oom_events_dropped_total :=
                  child_inc_by P [node] (as_f64 delta) (oom_events_dropped_total c1)\<rparr>
          else c1)"

section \<open>Eviction\<close>

definition note_pod_deleted :: "string \<Rightarrow> string \<Rightarrow> u64 \<Rightarrow> 'v collector \<Rightarrow> 'v collector" where
  "note_pod_deleted namespace pod now c =
     c\<lparr>deleted_after :=
        hm_insert (namespace, pod) (saturating_add now DELETED_POD_GRACE_SECONDS) (deleted_after c)\<rparr>"

definition remove_series :: "'v prom \<Rightarrow> series_key \<Rightarrow> bool \<Rightarrow> 'v collector \<Rightarrow> 'v collector" where
  "remove_series P key memory_series_orphaned c =
     (let c1 = c\<lparr>oom_kills_total := pm_remove P (oom_kills_total c) (labels key)\<rparr>;
          c2 = c1\<lparr>oom_last_timestamp := pm_remove P (oom_last_timestamp c1) (labels key)\<rparr>;
          c3 = (if memory_series_orphaned
                then c2\<lparr>oom_memory_usage_bytes :=
                        fold (\<lambda>memory_type v. pm_remove P v (memory_labels key memory_type))
                          MEMORY_TYPES (oom_memory_usage_bytes c2)\<rparr>
                else c2)
      in c3\<lparr>oom_series_evicted_total := child_inc P [sk_node key] (oom_series_evicted_total c3)\<rparr>)"

text \<open>The pods whose grace has passed, in the order \<open>retain\<close> visits them.\<close>

definition due_pods :: "u64 \<Rightarrow> 'v collector \<Rightarrow> (string \<times> string) list" where
  "due_pods now c = map fst (filter (\<lambda>(pod, removable_at). \<not> now < removable_at) (deleted_after c))"

definition is_stale :: "u64 \<Rightarrow> u64 \<Rightarrow> (string \<times> string) list \<Rightarrow> series_key \<Rightarrow> u64 \<Rightarrow> bool" where
  "is_stale now ttl_secs due key seen \<longleftrightarrow>
     ttl_secs \<le> saturating_sub now seen
     \<or> list_ex (\<lambda>(namespace, pod). sk_namespace key = namespace \<and> sk_pod key = pod) due"

definition evict_stale :: "'v prom \<Rightarrow> u64 \<Rightarrow> u64 \<Rightarrow> 'v collector \<Rightarrow> nat \<times> 'v collector" where
  "evict_stale P now ttl_secs c =
     (let due = due_pods now c;
          c1 = c\<lparr>deleted_after := hm_retain (\<lambda>pod removable_at. now < removable_at) (deleted_after c)\<rparr>;
          stale = map fst (filter (\<lambda>(key, seen). is_stale now ttl_secs due key seen) (last_seen c1));
          c2 = c1\<lparr>last_seen := hm_retain (\<lambda>key seen. \<not> is_stale now ttl_secs due key seen) (last_seen c1)\<rparr>;
          c3 = fold (\<lambda>key c. remove_series P key
                       (\<not> list_ex (\<lambda>live. shares_memory_series_with live key) (map fst (last_seen c2))) c)
                 stale c2
      in (length stale, c3))"

end
