(* ===== verification/Collector_Laws.thy ===== *)
theory Collector_Laws
  imports Metrics
begin

text \<open>
  What every operation of the metrics collector does to every part of its state, proved from
  the laws of the metric families alone, and the invariant that ties the per-container series
  to the bookkeeping in \<open>last_seen\<close>. The lemmas of the first sections are in the collection
  \<open>collector_simps\<close>.
\<close>

section \<open>The label arities\<close>

text \<open>Every family is used with as many label values as it declares names.\<close>

definition arities_ok :: "('v \<Rightarrow> nat) \<Rightarrow> 'v collector \<Rightarrow> bool" where
  "arities_ok arity c \<longleftrightarrow>
     arity (oom_kills_total c) = 6 \<and> arity (oom_kills_per_node_total c) = 1
     \<and> arity (oom_memory_usage_bytes c) = 5 \<and> arity (oom_last_timestamp c) = 6
     \<and> arity (oom_resolution_failures_total c) = 2 \<and> arity (oom_events_dropped_total c) = 1
     \<and> arity (oom_series_evicted_total c) = 1"

text \<open>The kilobytes that \<open>memory_values\<close> pairs with a memory type.\<close>

definition memory_figure :: "oom_kill_event \<Rightarrow> string \<Rightarrow> u64" where
  "memory_figure raw memory_type =
     (case map_of (zip MEMORY_TYPES (memory_values raw)) memory_type of None \<Rightarrow> 0 | Some kb \<Rightarrow> kb)"

definition is_memory_series_of :: "series_key \<Rightarrow> string list \<Rightarrow> bool" where
  "is_memory_series_of key ls \<longleftrightarrow> list_ex (\<lambda>mt. ls = memory_labels key mt) MEMORY_TYPES"

lemma is_memory_series_of_memory_labels:
  "is_memory_series_of k (memory_labels k' mt) \<longleftrightarrow> shares_memory_series_with k k' \<and> mt \<in> set MEMORY_TYPES"
  using shares_sym by (auto simp: is_memory_series_of_def list_ex_iff)

lemma is_memory_series_of_shares:
  "shares_memory_series_with k k' \<Longrightarrow> is_memory_series_of k ls = is_memory_series_of k' ls"
  by (auto simp: is_memory_series_of_def list_ex_iff memory_labels_def shares_memory_series_with_def)

lemma is_memory_series_of_both:
  "is_memory_series_of k ls \<Longrightarrow> is_memory_series_of k' ls \<Longrightarrow> shares_memory_series_with k k'"
  by (auto simp: is_memory_series_of_def list_ex_iff memory_labels_def shares_memory_series_with_def)

section \<open>Bookkeeping that no operation on the families touches\<close>

lemma record_oom_event_other [collector_simps]:
  "oom_resolution_failures_total (record_oom_event P ev c) = oom_resolution_failures_total c"
  "oom_events_dropped_total (record_oom_event P ev c) = oom_events_dropped_total c"
  "oom_series_evicted_total (record_oom_event P ev c) = oom_series_evicted_total c"
  "last_dropped_total (record_oom_event P ev c) = last_dropped_total c"
  "deleted_after (record_oom_event P ev c) = deleted_after c"
  "last_seen (record_oom_event P ev c) = hm_insert (event_key ev) (en_timestamp ev) (last_seen c)"
  by (simp_all add: record_oom_event_def Let_def)

lemma record_resolution_outcome_other [collector_simps]:
  "oom_kills_total (record_resolution_outcome P n out c) = oom_kills_total c"
  "oom_kills_per_node_total (record_resolution_outcome P n out c) = oom_kills_per_node_total c"
  "oom_memory_usage_bytes (record_resolution_outcome P n out c) = oom_memory_usage_bytes c"
  "oom_last_timestamp (record_resolution_outcome P n out c) = oom_last_timestamp c"
  "oom_events_dropped_total (record_resolution_outcome P n out c) = oom_events_dropped_total c"
  "oom_series_evicted_total (record_resolution_outcome P n out c) = oom_series_evicted_total c"
  "last_dropped_total (record_resolution_outcome P n out c) = last_dropped_total c"
  "deleted_after (record_resolution_outcome P n out c) = deleted_after c"
  "last_seen (record_resolution_outcome P n out c) = last_seen c"
  by (simp_all add: record_resolution_outcome_def Let_def split: resolution_outcome.split)

lemma record_dropped_total_other [collector_simps]:
  "oom_kills_total (record_dropped_total P n t c) = oom_kills_total c"
  "oom_kills_per_node_total (record_dropped_total P n t c) = oom_kills_per_node_total c"
  "oom_memory_usage_bytes (record_dropped_total P n t c) = oom_memory_usage_bytes c"
  "oom_last_timestamp (record_dropped_total P n t c) = oom_last_timestamp c"
  "oom_resolution_failures_total (record_dropped_total P n t c) = oom_resolution_failures_total c"
  "oom_series_evicted_total (record_dropped_total P n t c) = oom_series_evicted_total c"
  "last_dropped_total (record_dropped_total P n t c) = t"
  "deleted_after (record_dropped_total P n t c) = deleted_after c"
  "last_seen (record_dropped_total P n t c) = last_seen c"
  by (simp_all add: record_dropped_total_def Let_def split: option.split)

lemma note_pod_deleted_other [collector_simps]:
  "oom_kills_total (note_pod_deleted ns p now c) = oom_kills_total c"
  "oom_kills_per_node_total (note_pod_deleted ns p now c) = oom_kills_per_node_total c"
  "oom_memory_usage_bytes (note_pod_deleted ns p now c) = oom_memory_usage_bytes c"
  "oom_last_timestamp (note_pod_deleted ns p now c) = oom_last_timestamp c"
  "oom_resolution_failures_total (note_pod_deleted ns p now c) = oom_resolution_failures_total c"
  "oom_events_dropped_total (note_pod_deleted ns p now c) = oom_events_dropped_total c"
  "oom_series_evicted_total (note_pod_deleted ns p now c) = oom_series_evicted_total c"
  "last_dropped_total (note_pod_deleted ns p now c) = last_dropped_total c"
  "last_seen (note_pod_deleted ns p now c) = last_seen c"
  "deleted_after (note_pod_deleted ns p now c) =
     hm_insert (ns, p) (saturating_add now DELETED_POD_GRACE_SECONDS) (deleted_after c)"
  by (simp_all add: note_pod_deleted_def)

lemma remove_series_other [collector_simps]:
  "oom_kills_per_node_total (remove_series P k orph c) = oom_kills_per_node_total c"
  "oom_resolution_failures_total (remove_series P k orph c) = oom_resolution_failures_total c"
  "oom_events_dropped_total (remove_series P k orph c) = oom_events_dropped_total c"
  "last_dropped_total (remove_series P k orph c) = last_dropped_total c"
  "deleted_after (remove_series P k orph c) = deleted_after c"
  "last_seen (remove_series P k orph c) = last_seen c"
  by (simp_all add: remove_series_def Let_def)

text \<open>The loop of \<open>evict_stale\<close> over the stale keys.\<close>

definition remove_all :: "'v prom \<Rightarrow> (series_key \<Rightarrow> bool) \<Rightarrow> series_key list \<Rightarrow> 'v collector \<Rightarrow> 'v collector" where
  "remove_all P orphaned stale c = fold (\<lambda>key c. remove_series P key (orphaned key) c) stale c"

lemma remove_all_simps [simp]:
  "remove_all P orph [] c = c"
  "remove_all P orph (k # ks) c = remove_all P orph ks (remove_series P k (orph k) c)"
  by (simp_all add: remove_all_def)

lemma remove_all_other [collector_simps]:
  "oom_kills_per_node_total (remove_all P orph ks c) = oom_kills_per_node_total c"
  "oom_resolution_failures_total (remove_all P orph ks c) = oom_resolution_failures_total c"
  "oom_events_dropped_total (remove_all P orph ks c) = oom_events_dropped_total c"
  "last_dropped_total (remove_all P orph ks c) = last_dropped_total c"
  "deleted_after (remove_all P orph ks c) = deleted_after c"
  "last_seen (remove_all P orph ks c) = last_seen c"
  by (induction ks arbitrary: c) (simp_all add: collector_simps)

definition stale_keys :: "u64 \<Rightarrow> u64 \<Rightarrow> 'v collector \<Rightarrow> series_key list" where
  "stale_keys now ttl c =
     map fst (filter (\<lambda>(key, seen). is_stale now ttl (due_pods now c) key seen) (last_seen c))"

definition live_seen :: "u64 \<Rightarrow> u64 \<Rightarrow> 'v collector \<Rightarrow> (series_key, u64) hash_map" where
  "live_seen now ttl c =
     hm_retain (\<lambda>key seen. \<not> is_stale now ttl (due_pods now c) key seen) (last_seen c)"

definition orphaned_by :: "(series_key, u64) hash_map \<Rightarrow> series_key \<Rightarrow> bool" where
  "orphaned_by live key \<longleftrightarrow> \<not> list_ex (\<lambda>l. shares_memory_series_with l key) (map fst live)"

lemma evict_stale_eq:
  "evict_stale P now ttl c =
     (length (stale_keys now ttl c),
      remove_all P (orphaned_by (live_seen now ttl c)) (stale_keys now ttl c)
        (c\<lparr>deleted_after := hm_retain (\<lambda>pod removable_at. now < removable_at) (deleted_after c),
           last_seen := live_seen now ttl c\<rparr>))"
  by (simp add: evict_stale_def Let_def remove_all_def stale_keys_def live_seen_def orphaned_by_def)

lemma evict_stale_other [collector_simps]:
  "fst (evict_stale P now ttl c) = length (stale_keys now ttl c)"
  "oom_kills_per_node_total (snd (evict_stale P now ttl c)) = oom_kills_per_node_total c"
  "oom_resolution_failures_total (snd (evict_stale P now ttl c)) = oom_resolution_failures_total c"
  "oom_events_dropped_total (snd (evict_stale P now ttl c)) = oom_events_dropped_total c"
  "last_dropped_total (snd (evict_stale P now ttl c)) = last_dropped_total c"
  "deleted_after (snd (evict_stale P now ttl c)) =
     hm_retain (\<lambda>pod removable_at. now < removable_at) (deleted_after c)"
  "last_seen (snd (evict_stale P now ttl c)) = live_seen now ttl c"
  by (simp_all add: evict_stale_eq collector_simps)

lemma stale_or_live:
  "hm_ok (last_seen c) \<Longrightarrow> k \<in> hm_keys (last_seen c) \<longleftrightarrow>
     k \<in> set (stale_keys now ttl c) \<or> k \<in> hm_keys (live_seen now ttl c)"
  by (force simp: stale_keys_def live_seen_def set_hm_retain)

lemma stale_not_live:
  "hm_ok (last_seen c) \<Longrightarrow> k \<in> set (stale_keys now ttl c) \<Longrightarrow> k \<notin> hm_keys (live_seen now ttl c)"
  by (auto simp: stale_keys_def live_seen_def set_hm_retain hm_map_of_iff [symmetric])

lemma distinct_stale_keys: "hm_ok (last_seen c) \<Longrightarrow> distinct (stale_keys now ttl c)"
  by (simp add: stale_keys_def hm_ok_def distinct_map_filter)

lemma orphaned_by_iff: "orphaned_by live k \<longleftrightarrow> (\<forall>l \<in> hm_keys live. \<not> shares_memory_series_with l k)"
  by (auto simp: orphaned_by_def list_ex_iff)

section \<open>What the operations do to the families\<close>

text \<open>\<open>n\<close> increments by \<open>1.0\<close>.\<close>

definition bump :: "nat \<Rightarrow> f64 option \<Rightarrow> f64 option" where
  "bump n o' = (if n = 0 then o' else Some (((\<lambda>x. x + 1) ^^ n) (value_or_0 o')))"

lemma bump_0 [simp]: "bump 0 o' = o'"
  by (simp add: bump_def)

lemma bump_1: "bump (Suc 0) o' = Some (value_or_0 o' + 1)"
  by (simp add: bump_def)

lemma bump_bump: "bump m (bump n o') = bump (n + m) o'"
  by (auto simp: bump_def funpow_add add.commute [of n m])

context prom_vec
begin

abbreviation ok_arities :: "'v collector \<Rightarrow> bool" where
  "ok_arities \<equiv> arities_ok arity"

lemma arity_raise_gauge [simp]: "arity (raise_gauge P ls kb v) = arity v"
  by (simp add: raise_gauge_def Let_def split: option.split)

lemma get_raise_gauge:
  "length ls = arity v \<Longrightarrow>
    pm_get P (raise_gauge P ls kb v) k
      = (if k = ls then Some (max (value_or_0 (pm_get P v ls)) (as_f64 (kb * 1024))) else pm_get P v k)"
  by (auto simp: raise_gauge_def Let_def get_with
      get_set [where x = "value_or_0 (pm_get P v ls)"] max_def)

lemma arity_raise_gauges [simp]: "arity (raise_gauges P key raw v) = arity v"
  by (simp add: raise_gauges_def MEMORY_TYPES_def memory_values_def)

lemma get_raise_list:
  assumes "arity v = 5" "distinct (map fst ps)"
  shows "pm_get P (fold (\<lambda>(mt, kb). raise_gauge P (memory_labels key mt) kb) ps v) ls
      = (case map_of (map (\<lambda>(mt, kb). (memory_labels key mt, kb)) ps) ls of
           None \<Rightarrow> pm_get P v ls
         | Some kb \<Rightarrow> Some (max (value_or_0 (pm_get P v ls)) (as_f64 (kb * 1024))))"
  using assms
proof (induction ps arbitrary: v)
  case Nil
  then show ?case by simp
next
  case (Cons p ps)
  obtain mt kb where p: "p = (mt, kb)" by (cases p)
  have "map_of (map (\<lambda>(mt, kb). (memory_labels key mt, kb)) ps) (memory_labels key mt) = None"
    using Cons.prems(2) by (auto simp: p map_of_eq_None_iff rev_image_eqI)
  then show ?case
    using Cons by (auto simp: p get_raise_gauge split: option.split)
qed

lemma map_of_memory_labels:
  "map_of (map (\<lambda>(mt, kb). (memory_labels key mt, kb)) ps) ls
     = (if list_ex (\<lambda>mt. ls = memory_labels key mt) (map fst ps) then map_of ps (last ls) else None)"
  by (induction ps) (auto simp: list_ex_iff memory_labels_def)

lemma get_raise_gauges:
  "arity v = 5 \<Longrightarrow>
    pm_get P (raise_gauges P key raw v) ls
      = (if is_memory_series_of key ls
         then Some (max (value_or_0 (pm_get P v ls)) (as_f64 (memory_figure raw (last ls) * 1024)))
         else pm_get P v ls)"
proof -
  have names: "map fst (zip MEMORY_TYPES (memory_values raw)) = MEMORY_TYPES"
    by (simp add: MEMORY_TYPES_def memory_values_def)
  have dist: "distinct MEMORY_TYPES" by (simp add: MEMORY_TYPES_def)
  have some: "is_memory_series_of key ls \<Longrightarrow>
      map_of (zip MEMORY_TYPES (memory_values raw)) (last ls) = Some (memory_figure raw (last ls))"
    by (auto simp: is_memory_series_of_def memory_figure_def MEMORY_TYPES_def memory_values_def
        memory_labels_def)
  show "arity v = 5 \<Longrightarrow> ?thesis"
    using some
    by (simp add: raise_gauges_def get_raise_list names dist map_of_memory_labels
        is_memory_series_of_def [symmetric] del: map_of_eq_Some_iff)
qed

lemma arity_fold_remove [simp]:
  "arity (fold (\<lambda>t v. pm_remove P v (f t)) ts v) = arity v"
  by (induction ts arbitrary: v) auto

lemma get_fold_remove:
  "(\<And>t. length (f t) = arity v) \<Longrightarrow>
    pm_get P (fold (\<lambda>t v. pm_remove P v (f t)) ts v) ls
      = (if list_ex (\<lambda>t. ls = f t) ts then None else pm_get P v ls)"
  by (induction ts arbitrary: v) (auto simp: get_remove)

subsection \<open>Recording\<close>

lemma record_oom_event_families [collector_simps]:
  assumes "ok_arities c"
  shows "pm_get P (oom_kills_total (record_oom_event P ev c)) ls
           = (if ls = labels (event_key ev) then Some (value_or_0 (pm_get P (oom_kills_total c) ls) + 1)
              else pm_get P (oom_kills_total c) ls)"
    and "pm_get P (oom_kills_per_node_total (record_oom_event P ev c)) ls
           = (if ls = [sk_node (event_key ev)]
              then Some (value_or_0 (pm_get P (oom_kills_per_node_total c) ls) + 1)
              else pm_get P (oom_kills_per_node_total c) ls)"
    and "pm_get P (oom_last_timestamp (record_oom_event P ev c)) ls
           = (if ls = labels (event_key ev) then Some (as_f64 (en_timestamp ev))
              else pm_get P (oom_last_timestamp c) ls)"
    and "pm_get P (oom_memory_usage_bytes (record_oom_event P ev c)) ls
           = (if is_memory_series_of (event_key ev) ls
              then Some (max (value_or_0 (pm_get P (oom_memory_usage_bytes c) ls))
                             (as_f64 (memory_figure (en_raw_event ev) (last ls) * 1024)))
              else pm_get P (oom_memory_usage_bytes c) ls)"
    and "ok_arities (record_oom_event P ev c)"
  using assms by (simp_all add: record_oom_event_def Let_def arities_ok_def get_raise_gauges)

lemma record_resolution_outcome_families [collector_simps]:
  assumes "ok_arities c"
  shows "pm_get P (oom_resolution_failures_total (record_resolution_outcome P n out c)) ls
           = (case out of
                Found i \<Rightarrow> pm_get P (oom_resolution_failures_total c) ls
              | NotFound \<Rightarrow> bump (if ls = [n, ''not_found''] then 1 else 0)
                              (pm_get P (oom_resolution_failures_total c) ls)
              | Failed e \<Rightarrow> bump (if ls = [n, ''error''] then 1 else 0)
                              (pm_get P (oom_resolution_failures_total c) ls))"
    and "ok_arities (record_resolution_outcome P n out c)"
  using assms
  by (simp_all add: record_resolution_outcome_def Let_def arities_ok_def bump_1
      split: resolution_outcome.split)

lemma record_dropped_total_families [collector_simps]:
  assumes "ok_arities c"
  shows "pm_get P (oom_events_dropped_total (record_dropped_total P n t c)) ls
           = (if ls = [n] \<and> last_dropped_total c < t
              then Some (value_or_0 (pm_get P (oom_events_dropped_total c) ls)
                         + as_f64 (t - last_dropped_total c))
              else pm_get P (oom_events_dropped_total c) ls)"
    and "ok_arities (record_dropped_total P n t c)"
proof -
  have pos: "0 < t - l \<longleftrightarrow> l \<noteq> t" if "l \<le> t" for l :: u64
    by (metis word_neq_0_conv right_minus_eq)
  show "pm_get P (oom_events_dropped_total (record_dropped_total P n t c)) ls
          = (if ls = [n] \<and> last_dropped_total c < t
             then Some (value_or_0 (pm_get P (oom_events_dropped_total c) ls)
                        + as_f64 (t - last_dropped_total c))
             else pm_get P (oom_events_dropped_total c) ls)"
    using assms pos
    by (auto simp: record_dropped_total_def Let_def arities_ok_def checked_sub_def not_less
        split: option.split)
  show "ok_arities (record_dropped_total P n t c)"
    using assms by (auto simp: record_dropped_total_def Let_def arities_ok_def split: option.split)
qed

lemma note_pod_deleted_arities [collector_simps]:
  "ok_arities (note_pod_deleted ns p now c) = ok_arities c"
  by (simp add: note_pod_deleted_def arities_ok_def)

subsection \<open>Eviction\<close>

lemma remove_series_families [collector_simps]:
  assumes "ok_arities c"
  shows "pm_get P (oom_kills_total (remove_series P k orph c)) ls
           = (if ls = labels k then None else pm_get P (oom_kills_total c) ls)"
    and "pm_get P (oom_last_timestamp (remove_series P k orph c)) ls
           = (if ls = labels k then None else pm_get P (oom_last_timestamp c) ls)"
    and "pm_get P (oom_memory_usage_bytes (remove_series P k orph c)) ls
           = (if orph \<and> is_memory_series_of k ls then None
              else pm_get P (oom_memory_usage_bytes c) ls)"
    and "pm_get P (oom_series_evicted_total (remove_series P k orph c)) ls
           = bump (if ls = [sk_node k] then 1 else 0) (pm_get P (oom_series_evicted_total c) ls)"
    and "ok_arities (remove_series P k orph c)"
  using assms
  by (simp_all add: remove_series_def Let_def arities_ok_def get_remove get_fold_remove
      is_memory_series_of_def bump_1)

lemma remove_all_families [collector_simps]:
  assumes "ok_arities c"
  shows "pm_get P (oom_kills_total (remove_all P orph ks c)) ls
           = (if ls \<in> labels ` set ks then None else pm_get P (oom_kills_total c) ls)"
    and "pm_get P (oom_last_timestamp (remove_all P orph ks c)) ls
           = (if ls \<in> labels ` set ks then None else pm_get P (oom_last_timestamp c) ls)"
    and "pm_get P (oom_memory_usage_bytes (remove_all P orph ks c)) ls
           = (if \<exists>k \<in> set ks. orph k \<and> is_memory_series_of k ls then None
              else pm_get P (oom_memory_usage_bytes c) ls)"
    and "pm_get P (oom_series_evicted_total (remove_all P orph ks c)) ls
           = bump (length (filter (\<lambda>k. ls = [sk_node k]) ks)) (pm_get P (oom_series_evicted_total c) ls)"
    and "ok_arities (remove_all P orph ks c)"
  using assms
  by (induction ks arbitrary: c) (auto simp: collector_simps bump_bump)

lemma evict_stale_families [collector_simps]:
  assumes "ok_arities c"
  shows "pm_get P (oom_kills_total (snd (evict_stale P now ttl c))) ls
           = (if ls \<in> labels ` set (stale_keys now ttl c) then None
              else pm_get P (oom_kills_total c) ls)"
    and "pm_get P (oom_last_timestamp (snd (evict_stale P now ttl c))) ls
           = (if ls \<in> labels ` set (stale_keys now ttl c) then None
              else pm_get P (oom_last_timestamp c) ls)"
    and "pm_get P (oom_memory_usage_bytes (snd (evict_stale P now ttl c))) ls
           = (if \<exists>k \<in> set (stale_keys now ttl c). orphaned_by (live_seen now ttl c) k
                   \<and> is_memory_series_of k ls then None
              else pm_get P (oom_memory_usage_bytes c) ls)"
    and "pm_get P (oom_series_evicted_total (snd (evict_stale P now ttl c))) ls
           = bump (length (filter (\<lambda>k. ls = [sk_node k]) (stale_keys now ttl c)))
               (pm_get P (oom_series_evicted_total c) ls)"
    and "ok_arities (snd (evict_stale P now ttl c))"
proof -
  have "ok_arities (c\<lparr>deleted_after := d, last_seen := l\<rparr>)" for d l
    using assms by (simp add: arities_ok_def)
  note f = remove_all_families [OF this]
  show "pm_get P (oom_kills_total (snd (evict_stale P now ttl c))) ls
           = (if ls \<in> labels ` set (stale_keys now ttl c) then None
              else pm_get P (oom_kills_total c) ls)"
    and "pm_get P (oom_last_timestamp (snd (evict_stale P now ttl c))) ls
           = (if ls \<in> labels ` set (stale_keys now ttl c) then None
              else pm_get P (oom_last_timestamp c) ls)"
    and "pm_get P (oom_memory_usage_bytes (snd (evict_stale P now ttl c))) ls
           = (if \<exists>k \<in> set (stale_keys now ttl c). orphaned_by (live_seen now ttl c) k
                   \<and> is_memory_series_of k ls then None
              else pm_get P (oom_memory_usage_bytes c) ls)"
    and "pm_get P (oom_series_evicted_total (snd (evict_stale P now ttl c))) ls
           = bump (length (filter (\<lambda>k. ls = [sk_node k]) (stale_keys now ttl c)))
               (pm_get P (oom_series_evicted_total c) ls)"
    and "ok_arities (snd (evict_stale P now ttl c))"
    by (auto simp: evict_stale_eq f)
qed

lemma collector_new_facts:
  "ok_arities (collector_new P)"
  "pm_get P (oom_kills_total (collector_new P)) ls = None"
  "pm_get P (oom_kills_per_node_total (collector_new P)) ls = None"
  "pm_get P (oom_memory_usage_bytes (collector_new P)) ls = None"
  "pm_get P (oom_last_timestamp (collector_new P)) ls = None"
  "pm_get P (oom_resolution_failures_total (collector_new P)) ls = None"
  "pm_get P (oom_events_dropped_total (collector_new P)) ls = None"
  "pm_get P (oom_series_evicted_total (collector_new P)) ls = None"
  "last_dropped_total (collector_new P) = 0"
  "last_seen (collector_new P) = []" "deleted_after (collector_new P) = []"
  by (simp_all add: collector_new_def arities_ok_def PER_CONTAINER_LABELS_def get_new)

end

end
