(* ===== verification/Health.thy ===== *)
theory Health
  imports Prelude
begin

text \<open>
  \<open>oom-watcher/src/health.rs\<close>: the heartbeat that the watch loop stamps and the liveness probe
  reads. \<open>mark_started\<close> is two atomic stores, released in this order and acquired in the
  other, so a concurrent reader sees the state after none, the first or both of them.
\<close>

definition HEARTBEAT_INTERVAL_SECONDS :: u64 where
  "HEARTBEAT_INTERVAL_SECONDS = 30"

definition HEARTBEAT_STALE_AFTER_SECONDS :: u64 where
  "HEARTBEAT_STALE_AFTER_SECONDS = 3 * HEARTBEAT_INTERVAL_SECONDS"

datatype liveness_state = Starting | Live u64 | Stale u64

record health =
  hl_started :: bool
  hl_last_beat_seconds :: u64

definition health_new :: health where
  "health_new = \<lparr>hl_started = False, hl_last_beat_seconds = 0\<rparr>"

definition mark_started_stores :: "u64 \<Rightarrow> (health \<Rightarrow> health) list" where
  "mark_started_stores now =
     [\<lambda>h. h\<lparr>hl_last_beat_seconds := now\<rparr>, \<lambda>h. h\<lparr>hl_started := True\<rparr>]"

definition mark_started :: "u64 \<Rightarrow> health \<Rightarrow> health" where
  "mark_started now h = fold (\<lambda>store. store) (mark_started_stores now) h"

definition beat :: "u64 \<Rightarrow> health \<Rightarrow> health" where
  "beat now h = h\<lparr>hl_last_beat_seconds := now\<rparr>"

definition liveness :: "health \<Rightarrow> u64 \<Rightarrow> liveness_state" where
  "liveness h now =
     (if \<not> hl_started h then Starting
      else let age_seconds = saturating_sub now (hl_last_beat_seconds h) in
        if HEARTBEAT_STALE_AFTER_SECONDS < age_seconds then Stale age_seconds else Live age_seconds)"

lemma health_simps [simp]:
  "hl_started (mark_started now h)" "hl_last_beat_seconds (mark_started now h) = now"
  "hl_started (beat now h) = hl_started h" "hl_last_beat_seconds (beat now h) = now"
  by (simp_all add: mark_started_def mark_started_stores_def beat_def)

lemma stale_after: "unat HEARTBEAT_STALE_AFTER_SECONDS = 90"
  by (simp add: HEARTBEAT_STALE_AFTER_SECONDS_def HEARTBEAT_INTERVAL_SECONDS_def)

text \<open>
  The verdict by the age of the heartbeat: \<open>Starting\<close> until the loop starts; then
  \<open>Live\<close> up to and including an age of 90 seconds, \<open>Stale\<close> from 91 on; a clock that stepped
  back counts as age 0.
\<close>

lemma liveness_by_age:
  "(liveness h now = Starting \<longleftrightarrow> \<not> hl_started h)
   \<and> (\<forall>age. liveness h now = Live age \<longleftrightarrow>
        hl_started h \<and> unat age = unat now - unat (hl_last_beat_seconds h) \<and> unat age \<le> 90)
   \<and> (\<forall>age. liveness h now = Stale age \<longleftrightarrow>
        hl_started h \<and> unat age = unat now - unat (hl_last_beat_seconds h) \<and> 90 < unat age)"
proof -
  have "saturating_sub now b = age \<longleftrightarrow> unat age = unat now - unat b" for age b :: u64
    by (auto simp: word_unat_eq_iff unat_saturating_sub)
  then show ?thesis
    by (auto simp: liveness_def Let_def word_less_nat_alt stale_after unat_saturating_sub)
qed

text \<open>
  (C35) Starting never looks stale: whichever of the two stores of \<open>mark_started\<close> a concurrent
  probe has seen, it reads \<open>Starting\<close>, or \<open>Live\<close> with the age of the seed. The opposite
  order would let it read the zero the heartbeat was built with.
\<close>

theorem mark_started_is_ordered:
  assumes "\<not> hl_started h" "seen = fold (\<lambda>store. store) (take n (mark_started_stores t)) h"
  shows "liveness seen now = Starting
       \<or> (hl_last_beat_seconds seen = t \<and> liveness seen now = liveness (mark_started t h) now)"
proof -
  consider "n = 0" | "n = 1" | "2 \<le> n" by linarith
  then show ?thesis
    using assms by cases (auto simp: mark_started_def mark_started_stores_def liveness_def)
qed

theorem mark_started_is_ordered_witness:
  "liveness (fold (\<lambda>store. store) (take 2 (mark_started_stores 1000)) health_new) 1000 = Live 0"
  using mark_started_is_ordered [of health_new _ 2 1000 1000]
  by (simp add: health_new_def mark_started_stores_def liveness_def
      HEARTBEAT_STALE_AFTER_SECONDS_def HEARTBEAT_INTERVAL_SECONDS_def mark_started_def)

end
