(* ===== verification/Watch.thy ===== *)
theory Watch
  imports Source Collector_Laws Health
begin

text \<open>
  \<open>oom-watcher/src/watch.rs\<close>: the loop that pulls events, resolves, enriches and records them
  and stamps the heartbeat. It is generic over the source, the resolver and the recorder, and
  so is the model; the schedule (what the environment does in each turn, which branch of the
  \<open>select!\<close> wins, what the clock reads) is a list of turns. What the loop logs is in theory \<open>Log\<close>.
\<close>

section \<open>The recording seam\<close>

text \<open>The trait \<open>MetricsRecorder\<close> of \<open>metrics.rs\<close>, its calls acting on a state \<open>w\<close>.\<close>

record 'w recorder_ops =
  mr_outcome :: "string \<Rightarrow> resolution_outcome \<Rightarrow> 'w \<Rightarrow> 'w"
  mr_event :: "enriched_oom_event \<Rightarrow> 'w \<Rightarrow> 'w"
  mr_dropped :: "string \<Rightarrow> u64 \<Rightarrow> 'w \<Rightarrow> 'w"

text \<open>
  What a recorder promises the loop: a kill adds one to its node, a failed resolution one to
  its reason, and no call touches another count. \<open>succ\<close> is the counter's own increment.
\<close>

fun failure_reason :: "resolution_outcome \<Rightarrow> string option" where
  "failure_reason (Found i) = None"
| "failure_reason NotFound = Some ''not_found''"
| "failure_reason (Failed e) = Some ''error''"

locale metrics_recorder =
  fixes R :: "'w recorder_ops"
    and ok :: "'w \<Rightarrow> bool"
    and succ :: "'c \<Rightarrow> 'c"
    and kills :: "'w \<Rightarrow> string \<Rightarrow> 'c"
    and failures :: "'w \<Rightarrow> string \<Rightarrow> string \<Rightarrow> 'c"
  assumes ok_calls: "ok w \<Longrightarrow> ok (mr_outcome R node out w)" "ok w \<Longrightarrow> ok (mr_event R ev w)"
      "ok w \<Longrightarrow> ok (mr_dropped R node t w)"
    and kills_event: "ok w \<Longrightarrow> kills (mr_event R ev w) node
      = (if node = or_unknown (en_node_name ev) then succ (kills w node) else kills w node)"
    and kills_outcome: "ok w \<Longrightarrow> kills (mr_outcome R n out w) node = kills w node"
    and kills_dropped: "ok w \<Longrightarrow> kills (mr_dropped R n t w) node = kills w node"
    and failures_outcome: "ok w \<Longrightarrow> failures (mr_outcome R n out w) node reason
      = (if node = n \<and> failure_reason out = Some reason then succ (failures w node reason)
         else failures w node reason)"
    and failures_event: "ok w \<Longrightarrow> failures (mr_event R ev w) node reason = failures w node reason"
    and failures_dropped: "ok w \<Longrightarrow> failures (mr_dropped R n t w) node reason = failures w node reason"

text \<open>The Prometheus adapter.\<close>

definition collector_recorder :: "'v prom \<Rightarrow> 'v collector recorder_ops" where
  "collector_recorder P =
     \<lparr>mr_outcome = record_resolution_outcome P, mr_event = record_oom_event P,
      mr_dropped = record_dropped_total P\<rparr>"

definition collector_kills :: "'v prom \<Rightarrow> 'v collector \<Rightarrow> string \<Rightarrow> f64" where
  "collector_kills P c node = value_or_0 (pm_get P (oom_kills_per_node_total c) [node])"

definition collector_failures :: "'v prom \<Rightarrow> 'v collector \<Rightarrow> string \<Rightarrow> string \<Rightarrow> f64" where
  "collector_failures P c node reason =
     value_or_0 (pm_get P (oom_resolution_failures_total c) [node, reason])"

sublocale prom_vec \<subseteq> metrics_recorder "collector_recorder P" "arities_ok arity" "\<lambda>x. x + 1"
  "collector_kills P" "collector_failures P"
  by unfold_locales
     (auto simp: collector_recorder_def collector_kills_def collector_failures_def collector_simps
       event_key_def bump_def split: resolution_outcome.split)

text \<open>The spy of the tests, which keeps every call.\<close>

record spy =
  sp_outcomes :: "(string \<times> string) list"
  sp_events :: "enriched_oom_event list"
  sp_drops :: "(string \<times> u64) list"

definition spy_recorder :: "spy recorder_ops" where
  "spy_recorder =
     \<lparr>mr_outcome = (\<lambda>node outcome w. w\<lparr>sp_outcomes := sp_outcomes w @
        [(node, case outcome of Found i \<Rightarrow> ''found'' | NotFound \<Rightarrow> ''not_found'' | Failed e \<Rightarrow> ''error'')]\<rparr>),
      mr_event = (\<lambda>event w. w\<lparr>sp_events := sp_events w @ [event]\<rparr>),
      mr_dropped = (\<lambda>node tot w. w\<lparr>sp_drops := sp_drops w @ [(node, tot)]\<rparr>)\<rparr>"

interpretation spy: metrics_recorder spy_recorder "\<lambda>w. True" Suc
  "\<lambda>w node. length (filter (\<lambda>e. node = or_unknown (en_node_name e)) (sp_events w))"
  "\<lambda>w node reason. if reason = ''found'' then 0 else count_list (sp_outcomes w) (node, reason)"
  by unfold_locales (auto simp: spy_recorder_def split: resolution_outcome.split)

section \<open>The loop\<close>

text \<open>
  A resolver is its node name and its resolution, which depends on the world at the time
  (processes, the pod cache). In a turn the ticker may win the \<open>select!\<close> before the source is
  even polled; otherwise the source is, and a pending poll leaves the ticker to win.
\<close>

record 'k resolver =
  rv_node_name :: string
  rv_resolve :: "'k \<Rightarrow> u32 \<Rightarrow> resolution_outcome"

record ('env, 'k) turn =
  tn_beat_first :: bool
  tn_env :: 'env
  tn_world :: 'k
  tn_event_clock :: u64
  tn_beat_clock :: u64

datatype wake = Event oom_kill_event | Ended | Beat | Blocked

definition select_wake :: "('env, 's) source_ops \<Rightarrow> ('env, 'k) turn \<Rightarrow> 's \<Rightarrow> wake \<times> 's" where
  "select_wake S tn s =
     (if tn_beat_first tn then (Beat, s)
      else case src_next S (tn_env tn) s of
        (Ready None, s') \<Rightarrow> (Ended, s')
      | (Ready (Some raw), s') \<Rightarrow> (Event raw, s')
      | (Pending, s') \<Rightarrow> (Beat, s')
      | (Hangs, s') \<Rightarrow> (Blocked, s'))"

definition node_label :: "'k resolver option \<Rightarrow> string" where
  "node_label resolver = (case resolver of None \<Rightarrow> ''unknown'' | Some r \<Rightarrow> rv_node_name r)"

definition process_event ::
  "'w recorder_ops \<Rightarrow> 'k resolver option \<Rightarrow> 'k \<Rightarrow> oom_kill_event \<Rightarrow> u64 \<Rightarrow> 'w \<Rightarrow> 'w" where
  "process_event R resolver world raw_event timestamp w =
     (let (node_name, identity, w1) =
        (case resolver of
           Some client \<Rightarrow>
             let outcome = rv_resolve client world (ev_pid raw_event) in
             (Some (rv_node_name client), outcome_identity outcome,
              mr_outcome R (rv_node_name client) outcome w)
         | None \<Rightarrow> (None, None, w))
      in mr_event R (enrich raw_event node_name identity timestamp) w1)"

text \<open>One turn of the loop; \<open>heartbeat\<close> acts on a state \<open>h\<close>.\<close>

definition handle_event ::
  "('env, 's) source_ops \<Rightarrow> 'w recorder_ops \<Rightarrow> 'k resolver option \<Rightarrow> ('env, 'k) turn \<Rightarrow> oom_kill_event \<Rightarrow> 's \<Rightarrow> 'w \<Rightarrow> 'w" where
  "handle_event S R resolver tn raw_event s w =
     (let w1 = process_event R resolver (tn_world tn) raw_event (tn_event_clock tn) w in
      case src_dropped_total S s of
        Some tot \<Rightarrow> mr_dropped R (node_label resolver) tot w1
      | None \<Rightarrow> w1)"

datatype run_end = Still_running | Returned | Stuck

fun run ::
  "('env, 's) source_ops \<Rightarrow> 'w recorder_ops \<Rightarrow> 'k resolver option \<Rightarrow> (u64 \<Rightarrow> 'h \<Rightarrow> 'h)
     \<Rightarrow> ('env, 'k) turn list \<Rightarrow> 's \<Rightarrow> 'w \<Rightarrow> 'h \<Rightarrow> run_end \<times> 's \<times> 'w \<times> 'h" where
  "run S R resolver heartbeat [] s w h = (Still_running, s, w, h)"
| "run S R resolver heartbeat (tn # tns) s w h =
     (case select_wake S tn s of
        (Ended, s') \<Rightarrow> (Returned, s', w, h)
      | (Event raw_event, s') \<Rightarrow>
          run S R resolver heartbeat tns s' (handle_event S R resolver tn raw_event s' w)
            (heartbeat (tn_beat_clock tn) h)
      | (Beat, s') \<Rightarrow> run S R resolver heartbeat tns s' w (heartbeat (tn_beat_clock tn) h)
      | (Blocked, s') \<Rightarrow> (Stuck, s', w, h))"

section \<open>What a run delivers\<close>

text \<open>The turns in which an event was delivered, and the turns that ended with a heartbeat.\<close>

fun deliveries :: "('env, 's) source_ops \<Rightarrow> ('env, 'k) turn list \<Rightarrow> 's \<Rightarrow> (('env, 'k) turn \<times> oom_kill_event) list" where
  "deliveries S [] s = []"
| "deliveries S (tn # tns) s =
     (case select_wake S tn s of
        (Event raw, s') \<Rightarrow> (tn, raw) # deliveries S tns s'
      | (Beat, s') \<Rightarrow> deliveries S tns s'
      | _ \<Rightarrow> [])"

fun beats :: "('env, 's) source_ops \<Rightarrow> ('env, 'k) turn list \<Rightarrow> 's \<Rightarrow> u64 list" where
  "beats S [] s = []"
| "beats S (tn # tns) s =
     (case select_wake S tn s of
        (Event raw, s') \<Rightarrow> tn_beat_clock tn # beats S tns s'
      | (Beat, s') \<Rightarrow> tn_beat_clock tn # beats S tns s'
      | _ \<Rightarrow> [])"

definition enriched_of :: "'k resolver option \<Rightarrow> ('env, 'k) turn \<times> oom_kill_event \<Rightarrow> enriched_oom_event" where
  "enriched_of resolver d =
     (case d of (tn, raw) \<Rightarrow>
        enrich raw (map_option rv_node_name resolver)
          (Option.bind resolver (\<lambda>r. outcome_identity (rv_resolve r (tn_world tn) (ev_pid raw))))
          (tn_event_clock tn))"

definition outcome_of :: "'k resolver \<Rightarrow> ('env, 'k) turn \<times> oom_kill_event \<Rightarrow> resolution_outcome" where
  "outcome_of r d = (case d of (tn, raw) \<Rightarrow> rv_resolve r (tn_world tn) (ev_pid raw))"

lemma process_event_eq:
  "process_event R resolver (tn_world tn) raw (tn_event_clock tn) w =
     mr_event R (enriched_of resolver (tn, raw))
       (case resolver of None \<Rightarrow> w | Some r \<Rightarrow> mr_outcome R (rv_node_name r) (outcome_of r (tn, raw)) w)"
  by (simp add: process_event_def enriched_of_def outcome_of_def Let_def split: option.split)

lemma run_beats: "snd (snd (snd (run S R resolver heartbeat tns s w h))) = fold heartbeat (beats S tns s) h"
  by (induction tns arbitrary: s w h) (auto split: prod.split wake.split)

text \<open>A lemma about the recorder follows one event to the next.\<close>

lemma run_recorder_induct:
  assumes "\<And>tn raw s w. I w \<Longrightarrow> I (handle_event S R resolver tn raw s w)" "I w"
  shows "I (fst (snd (snd (run S R resolver heartbeat tns s w h))))"
  using assms(2) by (induction tns arbitrary: s w h) (auto simp: assms(1) split: prod.split wake.split)

context event_source
begin

lemma run_never_stuck: "fst (run S R resolver heartbeat tns s w h) \<noteq> Stuck"
proof (induction tns arbitrary: s w h)
  case Nil
  then show ?case by simp
next
  case (Cons tn tns)
  have "fst (select_wake S tn s) \<noteq> Blocked"
    using next_returns [of "tn_env tn" s]
    by (auto simp: select_wake_def split: prod.splits poll.splits option.splits)
  with Cons show ?case by (auto split: prod.split wake.split)
qed

lemma select_wake_conserves:
  assumes "select_wake S tn s = (w, s')"
  shows "\<exists>new. history s' = history s @ new
           \<and> (case w of Event raw \<Rightarrow> [raw] | _ \<Rightarrow> []) @ backlog s' = backlog s @ new"
proof (cases "tn_beat_first tn")
  case True
  with assms show ?thesis by (auto simp: select_wake_def)
next
  case False
  obtain r sk where nx: "src_next S (tn_env tn) s = (r, sk)" by fastforce
  with assms False have "s' = sk" "(case w of Event raw \<Rightarrow> [raw] | _ \<Rightarrow> []) = delivered r"
    using next_returns [of "tn_env tn" s]
    by (auto simp: select_wake_def split: poll.splits option.splits)
  with next_conserves [OF nx] show ?thesis by simp
qed

lemma run_delivers:
  "\<exists>new. history (fst (snd (run S R resolver heartbeat tns s w h))) = history s @ new
     \<and> map snd (deliveries S tns s) @ backlog (fst (snd (run S R resolver heartbeat tns s w h))) = backlog s @ new"
proof (induction tns arbitrary: s w h)
  case Nil
  then show ?case by simp
next
  case (Cons tn tns)
  obtain wk s' where sel: "select_wake S tn s = (wk, s')" by fastforce
  obtain new where new: "history s' = history s @ new"
      "(case wk of Event raw \<Rightarrow> [raw] | _ \<Rightarrow> []) @ backlog s' = backlog s @ new"
    using select_wake_conserves [OF sel] by blast
  show ?case
  proof (cases wk)
    case (Event raw)
    let ?w = "handle_event S R resolver tn raw s' w" and ?h = "heartbeat (tn_beat_clock tn) h"
    from Cons [of s' ?w ?h] obtain later
      where "history (fst (snd (run S R resolver heartbeat tns s' ?w ?h))) = history s' @ later"
        "map snd (deliveries S tns s') @ backlog (fst (snd (run S R resolver heartbeat tns s' ?w ?h)))
           = backlog s' @ later" by blast
    moreover from new(2) Event have "backlog s @ new @ later = raw # backlog s' @ later"
      by simp
    ultimately show ?thesis
      using new(1) Event by (intro exI [of _ "new @ later"]) (simp add: sel)
  next
    case Beat
    from Cons [of s' w "heartbeat (tn_beat_clock tn) h"] new Beat show ?thesis by (auto simp: sel)
  qed (use new in \<open>auto simp: sel\<close>)
qed

end

definition outcome_label :: "resolution_outcome \<Rightarrow> string" where
  "outcome_label out = (case out of Found i \<Rightarrow> ''found'' | NotFound \<Rightarrow> ''not_found'' | Failed e \<Rightarrow> ''error'')"

lemma spy_process:
  "sp_events (handle_event S spy_recorder resolver tn raw s w) = sp_events w @ [enriched_of resolver (tn, raw)]"
  "sp_outcomes (handle_event S spy_recorder resolver tn raw s w) = sp_outcomes w
     @ (case resolver of None \<Rightarrow> [] | Some r \<Rightarrow> [(rv_node_name r, outcome_label (outcome_of r (tn, raw)))])"
  by (simp_all add: handle_event_def Let_def process_event_eq spy_recorder_def outcome_label_def
      split: option.split)

lemma spy_run:
  "sp_events (fst (snd (snd (run S spy_recorder resolver heartbeat tns s w h))))
     = sp_events w @ map (enriched_of resolver) (deliveries S tns s)"
  "sp_outcomes (fst (snd (snd (run S spy_recorder resolver heartbeat tns s w h))))
     = sp_outcomes w @ (case resolver of None \<Rightarrow> []
         | Some r \<Rightarrow> map (\<lambda>d. (rv_node_name r, outcome_label (outcome_of r d))) (deliveries S tns s))"
  by (induction tns arbitrary: s w h)
     (auto simp: spy_process split: prod.split wake.split option.split)

lemma raw_enriched: "map en_raw_event (map (enriched_of resolver) ds) = map snd ds"
  by (simp add: enriched_of_def split_beta comp_def)

text \<open>
  (C21) What the loop reports, call by call, for any source and schedule: one recording for each
  event the source delivered, in order, enriched with the identity its resolution found (none
  when it failed) and stamped with the clock of its turn; and, in a cluster, one outcome for
  each. The node is named exactly when there is a resolver.
\<close>

theorem loop_reports_every_event:
  assumes "run S spy_recorder resolver heartbeat tns s w h = (e, s', w', h')"
  shows "sp_events w' = sp_events w @ map (enriched_of resolver) (deliveries S tns s)
       \<and> sp_outcomes w' = sp_outcomes w @ (case resolver of None \<Rightarrow> []
            | Some r \<Rightarrow> map (\<lambda>d. (rv_node_name r, outcome_label (outcome_of r d))) (deliveries S tns s))"
  using spy_run [of S resolver heartbeat tns s w h] assms by simp

text \<open>A resolver as the tests fake it, and a queue of two events.\<close>

datatype behavior = Behave_found container_identity | Behave_not_found | Behave_fail

definition fake_resolver :: "string \<Rightarrow> behavior \<Rightarrow> 'k resolver" where
  "fake_resolver node behavior =
     \<lparr>rv_node_name = node,
      rv_resolve = (\<lambda>world pid. case behavior of
        Behave_found i \<Rightarrow> Found i | Behave_not_found \<Rightarrow> NotFound | Behave_fail \<Rightarrow> Failed ''api down'')\<rparr>"

definition test_raw :: "u32 \<Rightarrow> oom_kill_event" where
  "test_raw pid =
     \<lparr>ev_pid = pid, ev_comm = map (\<lambda>c. of_nat (of_char c)) ''target'' @ replicate 10 0,
      ev_total_vm = 100, ev_anon_rss = 50, ev_file_rss = 10, ev_shmem_rss = 5, ev_uid = 1000, ev_pgtables = 2, ev_oom_score_adj = 0\<rparr>"

definition test_turn :: "u64 \<Rightarrow> (unit, unit) turn" where
  "test_turn t = \<lparr>tn_beat_first = False, tn_env = (), tn_world = (), tn_event_clock = t, tn_beat_clock = t + 1\<rparr>"

definition test_source :: vec_source where
  "test_source = \<lparr>vs_events = [test_raw 1, test_raw 2], vs_drops = Some 3\<rparr>"

definition spy_new :: spy where
  "spy_new = \<lparr>sp_outcomes = [], sp_events = [], sp_drops = []\<rparr>"

lemma test_deliveries:
  "deliveries vec_source_ops [test_turn 10, test_turn 20] test_source
     = [(test_turn 10, test_raw 1), (test_turn 20, test_raw 2)]"
  by (simp add: select_wake_def vec_source_ops_def test_source_def test_turn_def)

theorem loop_reports_every_event_witness:
  "map ev_pid (map en_raw_event (sp_events (fst (snd (snd (run vec_source_ops spy_recorder
      (Some (fake_resolver ''n'' Behave_fail)) (\<lambda>t h. h) [test_turn 10, test_turn 20] test_source spy_new ())))))) = [1, 2]"
proof -
  obtain e s' w' h' where r: "run vec_source_ops spy_recorder (Some (fake_resolver ''n'' Behave_fail)) (\<lambda>t h. h)
      [test_turn 10, test_turn 20] test_source spy_new () = (e, s', w', h')" by (metis prod_cases4)
  with loop_reports_every_event [OF r] show ?thesis
    by (simp add: test_deliveries enriched_of_def spy_new_def test_raw_def del: run.simps deliveries.simps)
qed

text \<open>
  (C20) From the kernel's ring to the recorder, the loop neither loses nor invents events, over any
  schedule and any firings of the probe: the events recorded during the run, the ones decoded
  but not yet taken, and the ones still in the ring are together, and in this order, exactly
  the ones that were owed at the start followed by the ones that the kernel put into the ring
  during the run (\<open>new\<close>, what the ring's journal grew by). Heartbeats that cancel a pending poll
  change nothing of this, and the loop is never stuck in a poll.
\<close>

theorem loop_conserves_events:
  assumes "ring_journal put pop contents journal" "bpf_output bpf = put"
    and "S = ring_buf_source_ops pop (mark_victims bpf pad) get_dropped"
    and "in_ring = (\<lambda>s. List.map_filter decode_record (contents (EVENTS (rs_maps s))))"
    and "ever_in_ring = (\<lambda>s. List.map_filter decode_record (journal (EVENTS (rs_maps s))))"
    and "run S spy_recorder resolver heartbeat tns s spy_new h = (e, s', w', h')"
  shows "e \<noteq> Stuck
       \<and> (\<exists>new. ever_in_ring s' = ever_in_ring s @ new
            \<and> map en_raw_event (sp_events w') @ rs_pending s' @ in_ring s' = rs_pending s @ in_ring s @ new)"
proof -
  note feed = ring_journal.probe_feeds [OF assms(1,2), of pad]
  note contract = ring_feed.next_contract [OF feed, of get_dropped, folded assms(3)]
  have "map en_raw_event (sp_events w') = map snd (deliveries S tns s)"
    using spy_run(1) [of S resolver heartbeat tns s spy_new h] assms(6)
    by (simp add: spy_new_def raw_enriched del: map_map)
  then show ?thesis
    using event_source.run_delivers [OF contract, of spy_recorder resolver heartbeat tns s spy_new h]
      event_source.run_never_stuck [OF contract, of spy_recorder resolver heartbeat tns s spy_new h] assms(4-6)
    by (simp add: ring_feed.owed_def [OF feed] ring_feed.arrived_def [OF feed])
qed

text \<open>Two events at hand, two turns: both are recorded, and nothing else.\<close>

definition idle_turn :: "((nat \<times> nat) list list \<times> bool, unit) turn" where
  "idle_turn = \<lparr>tn_beat_first = False, tn_env = ([], False), tn_world = (), tn_event_clock = 1, tn_beat_clock = 2\<rparr>"

theorem loop_conserves_events_witness:
  "map en_raw_event (sp_events (fst (snd (snd (run
      (ring_buf_source_ops (logged_pop br_pop)
        (mark_victims (kernel_bpf (bpf_read sample_bpf) (bpf_read_str sample_bpf)) (\<lambda>_. 0)) (\<lambda>m. Some (DROPPED m)))
      spy_recorder (None :: unit resolver option) (\<lambda>t h. h) [idle_turn, idle_turn, idle_turn]
      \<lparr>rs_maps = logged_probe, rs_pending = [test_raw 1, test_raw 2]\<rparr> spy_new ()))))) = [test_raw 1, test_raw 2]"
proof -
  let ?bpf = "kernel_bpf (bpf_read sample_bpf) (bpf_read_str sample_bpf)"
    and ?s = "\<lparr>rs_maps = logged_probe, rs_pending = [test_raw 1, test_raw 2]\<rparr>"
  let ?S = "ring_buf_source_ops (logged_pop br_pop) (mark_victims ?bpf (\<lambda>_. 0)) (\<lambda>m. Some (DROPPED m))"
  obtain e s' w' h' where r: "run ?S spy_recorder (None :: unit resolver option) (\<lambda>t h. h)
      [idle_turn, idle_turn, idle_turn] ?s spy_new () = (e, s', w', h')" by (metis prod_cases4)
  then have s': "rs_maps s' = logged_probe \<and> rs_pending s' = []"
    by (auto simp: idle_turn_def select_wake_def ring_buf_source_ops_def ring_buf_next.simps)
  have "bpf_output ?bpf = logged_put br_output" by (simp add: kernel_bpf_def)
  from loop_conserves_events [OF lr.ring_journal_axioms this refl refl refl r] s' r show ?thesis
    by (simp add: logged_probe_def br_new_def map_filter_simps del: run.simps)
qed

section \<open>What a run leaves in the counters\<close>

lemma enriched_node: "or_unknown (en_node_name (enriched_of resolver d)) = node_label resolver"
  by (simp add: enriched_of_def or_unknown_def node_label_def split: option.split prod.split)

definition failed_with :: "'k resolver option \<Rightarrow> string \<Rightarrow> string \<Rightarrow> ('env, 'k) turn \<times> oom_kill_event \<Rightarrow> bool" where
  "failed_with resolver node reason d \<longleftrightarrow>
     (case resolver of None \<Rightarrow> False
      | Some r \<Rightarrow> node = rv_node_name r \<and> failure_reason (outcome_of r d) = Some reason)"

context metrics_recorder
begin

lemma handle_ok: "ok w \<Longrightarrow> ok (handle_event S R resolver tn raw s w)"
  by (simp add: handle_event_def Let_def process_event_eq ok_calls split: option.split)

lemma handle_kills:
  "ok w \<Longrightarrow> kills (handle_event S R resolver tn raw s w) node
     = (if node = node_label resolver then succ (kills w node) else kills w node)"
  by (simp add: handle_event_def Let_def process_event_eq ok_calls kills_event kills_outcome
      kills_dropped enriched_node split: option.split)

lemma handle_failures:
  "ok w \<Longrightarrow> failures (handle_event S R resolver tn raw s w) node reason
     = (if failed_with resolver node reason (tn, raw) then succ (failures w node reason)
        else failures w node reason)"
  by (simp add: handle_event_def Let_def process_event_eq ok_calls failures_event failures_outcome
      failures_dropped failed_with_def split: option.split)

lemma run_counts:
  assumes "ok w" "run S R resolver heartbeat tns s w h = (e, s', w', h')"
  shows "ok w' \<and> kills w' node = (succ ^^ (if node = node_label resolver then length (deliveries S tns s) else 0)) (kills w node)
       \<and> failures w' node reason = (succ ^^ length (filter (failed_with resolver node reason) (deliveries S tns s))) (failures w node reason)"
  using assms
proof (induction tns arbitrary: s w h)
  case Nil
  then show ?case by simp
next
  case (Cons tn tns)
  obtain wk sk where sel: "select_wake S tn s = (wk, sk)" by fastforce
  show ?case
  proof (cases wk)
    case (Event raw)
    note w = handle_ok [OF Cons.prems(1), of S resolver tn raw sk]
    from Cons.IH [OF w, of sk "heartbeat (tn_beat_clock tn) h"] Cons.prems(2) Event
    show ?thesis
      by (simp add: sel handle_kills [OF Cons.prems(1)] handle_failures [OF Cons.prems(1)] funpow_swap1)
  qed (use Cons sel in auto)
qed

end

context prom_vec
begin

lemmas collector_counts = run_counts

end

lemma f64_count: "n < 2 ^ 53 \<Longrightarrow> ((\<lambda>x. x + 1) ^^ n) 0 = F64 n"
proof (induction n)
  case 0
  then show ?case by (simp add: zero_f64_def)
next
  case (Suc n)
  then have "((\<lambda>x. x + 1) ^^ Suc n) 0 = F64 n + 1" by simp
  with Suc.prems show ?case by (simp add: one_f64_def f64_plus_exact)
qed

text \<open>
  (C22) The Prometheus counters after a run from start-up: the kill count of the node is the
  number of events delivered, and each failure counter is the number of resolutions that failed
  for that reason, so that failures over kills is the failure rate (exact below \<open>2 ^ 53\<close>).
\<close>

theorem counters_after_run:
  assumes "prom_vec P arity" "length (deliveries S tns s) < 2 ^ 53"
    and "run S (collector_recorder P) (Some r) heartbeat tns s (collector_new P) h = (e, s', c, h')"
  shows "collector_kills P c (rv_node_name r) = F64 (length (deliveries S tns s))
       \<and> collector_failures P c (rv_node_name r) ''not_found''
           = F64 (length (filter (\<lambda>d. outcome_of r d = NotFound) (deliveries S tns s)))
       \<and> collector_failures P c (rv_node_name r) ''error''
           = F64 (length (filter (\<lambda>d. \<exists>e. outcome_of r d = Failed e) (deliveries S tns s)))"
proof -
  have count: "((\<lambda>x. x + 1) ^^ length (filter Q (deliveries S tns s))) 0 = F64 (length (filter Q (deliveries S tns s)))" for Q
    by (rule f64_count) (rule le_less_trans [OF length_filter_le assms(2)])
  have fails: "failed_with (Some r) (rv_node_name r) ''not_found'' = (\<lambda>d. outcome_of r d = NotFound)"
    "failed_with (Some r) (rv_node_name r) ''error'' = (\<lambda>d. \<exists>e. outcome_of r d = Failed e)"
    by (auto simp: failed_with_def fun_eq_iff elim!: failure_reason.elims)
  have zero: "collector_kills P (collector_new P) n = 0" "collector_failures P (collector_new P) n q = 0" for n q
    by (simp_all add: collector_kills_def collector_failures_def prom_vec.collector_new_facts [OF assms(1)])
  show ?thesis
    using prom_vec.collector_counts [OF assms(1) prom_vec.collector_new_facts(1) [OF assms(1)] assms(3)]
    by (simp add: zero count fails [symmetric] f64_count [OF assms(2)] node_label_def)
qed

theorem counters_after_run_witness:
  "collector_failures assoc_prom (fst (snd (snd (run vec_source_ops (collector_recorder assoc_prom)
      (Some (fake_resolver ''n'' Behave_fail)) (\<lambda>t h. h) [test_turn 10, test_turn 20] test_source
      (collector_new assoc_prom) ())))) ''n'' ''error'' = F64 2"
proof -
  obtain e s' c h' where r: "run vec_source_ops (collector_recorder assoc_prom)
      (Some (fake_resolver ''n'' Behave_fail)) (\<lambda>t h. h) [test_turn 10, test_turn 20] test_source
      (collector_new assoc_prom) () = (e, s', c, h')" by (metis prod_cases4)
  have "length (deliveries vec_source_ops [test_turn 10, test_turn 20] test_source) < 2 ^ 53"
    unfolding test_deliveries by simp
  from counters_after_run [OF assoc.prom_vec_axioms this r] r show ?thesis
    by (simp add: test_deliveries outcome_of_def fake_resolver_def del: run.simps deliveries.simps)
qed

section \<open>The heartbeat\<close>

lemma beats_while_running:
  "fst (run S R resolver heartbeat tns s w h) = Still_running \<Longrightarrow> beats S tns s = map tn_beat_clock tns"
  by (induction tns arbitrary: s w h) (auto split: prod.splits wake.splits)

lemma fold_beat:
  "hl_started (fold beat ts h) = hl_started h"
  "ts \<noteq> [] \<Longrightarrow> hl_last_beat_seconds (fold beat ts h) = last ts"
  by (induction ts arbitrary: h) auto

text \<open>
  (C33) Every wake is stamped, an event or a tick, at its end: while the loop runs, the heartbeats
  are the clocks of the turns, so liveness holds for 90 seconds after the last one; a turn that
  does not come back leaves the heartbeat of the turn before, and goes stale.
\<close>

theorem heartbeat_follows_turns:
  assumes "run S R resolver beat tns s w h = (Still_running, s', w', h')" "tns \<noteq> []" "hl_started h"
  shows "hl_last_beat_seconds h' = tn_beat_clock (last tns)
       \<and> (\<forall>now. (\<exists>age. liveness h' now = Live age) \<longleftrightarrow> unat now - unat (tn_beat_clock (last tns)) \<le> 90)"
proof -
  have "h' = fold beat (map tn_beat_clock tns) h"
    using run_beats [of S R resolver beat tns s w h] beats_while_running [of S R resolver beat tns s w h] assms(1)
    by simp
  with assms(2,3) have "hl_started h'" "hl_last_beat_seconds h' = tn_beat_clock (last tns)"
    by (simp_all add: fold_beat last_map del: fold_map)
  then show ?thesis
    by (auto simp: liveness_def Let_def word_less_nat_alt unat_saturating_sub stale_after)
qed

theorem heartbeat_follows_turns_witness:
  "liveness (snd (snd (snd (run park_source_ops spy_recorder (None :: unit resolver option) beat
      [test_turn 10, test_turn 30] () spy_new (mark_started 1 health_new))))) 121 = Live 90"
proof -
  obtain e s' w' h' where r: "run park_source_ops spy_recorder (None :: unit resolver option) beat
      [test_turn 10, test_turn 30] () spy_new (mark_started 1 health_new) = (e, s', w', h')" by (metis prod_cases4)
  moreover from this have "e = Still_running"
    by (simp add: select_wake_def park_source_ops_def test_turn_def)
  ultimately have r': "run park_source_ops spy_recorder (None :: unit resolver option) beat
      [test_turn 10, test_turn 30] () spy_new (mark_started 1 health_new) = (Still_running, s', w', h')" by blast
  have st: "hl_started (mark_started 1 health_new)" by simp
  from heartbeat_follows_turns [OF r' _ st] have b: "hl_last_beat_seconds h' = 31"
    and "\<exists>age. liveness h' 121 = Live age" by (simp_all add: test_turn_def del: run.simps)
  then show ?thesis unfolding r' by (auto simp: liveness_def Let_def saturating_sub_def split: if_splits)
qed

end
