(* ===== verification/Pods.thy ===== *)
theory Pods
  imports Rust_Str Resolution
begin

text \<open>
  \<open>oom-watcher/src/kubernetes.rs\<close>, the part over pods: matching a bare container id against the
  container statuses of the node's pods, trimming a pod for the cache, and the cache itself.
  The pod types are those of \<open>k8s_openapi\<close> with the fields the sources name (parts nothing
  reads stand for themselves as text). \<open>kube\<close>'s reflector is an interface: a locale states
  what its store is after each watch event.
\<close>

section \<open>Pods\<close>

record object_meta =
  om_name :: "string option"
  om_namespace :: "string option"
  om_uid :: "string option"
  om_managed_fields :: "string list option"
  om_annotations :: "(string \<times> string) list option"

record container_state_terminated =
  ct_container_id :: "string option"
  ct_exit_code :: i32

record container_state =
  st_terminated :: "container_state_terminated option"

record container_status =
  cs_name :: string
  cs_container_id :: "string option"
  cs_image_id :: string
  cs_last_state :: "container_state option"

record pod_status =
  ps_container_statuses :: "container_status list option"

record pod =
  pod_metadata :: object_meta
  pod_spec :: "string option"
  pod_status :: "pod_status option"

section \<open>Matching\<close>

definition running_container_id :: "container_status \<Rightarrow> string option" where
  "running_container_id status = cs_container_id status"

definition terminated_container_id :: "container_status \<Rightarrow> string option" where
  "terminated_container_id status =
     Option.bind (cs_last_state status) (\<lambda>st. Option.bind (st_terminated st) ct_container_id)"

definition names_container :: "string \<Rightarrow> string \<Rightarrow> bool" where
  "names_container reported container_id \<longleftrightarrow>
     ends_with reported container_id \<or> contains reported container_id"

definition match_status ::
  "string \<Rightarrow> (container_status \<Rightarrow> string option) \<Rightarrow> container_status \<Rightarrow> (container_status \<times> string) option" where
  "match_status container_id candidate status =
     (case candidate status of
        None \<Rightarrow> None
      | Some full \<Rightarrow> if names_container full container_id then Some (status, full) else None)"

definition match_container ::
  "pod list \<Rightarrow> string \<Rightarrow> (container_status \<Rightarrow> string option) \<Rightarrow> container_identity option" where
  "match_container pods container_id candidate =
     find_map (\<lambda>pod.
       Option.bind (pod_status pod) (\<lambda>ps.
       Option.bind (ps_container_statuses ps) (\<lambda>statuses.
       Option.bind (find_map (match_status container_id candidate) statuses) (\<lambda>(status, container_id_full).
         Some \<lparr>ci_namespace = (case om_namespace (pod_metadata pod) of None \<Rightarrow> ''default'' | Some n \<Rightarrow> n),
               ci_pod_name = (case om_name (pod_metadata pod) of None \<Rightarrow> ''unknown'' | Some n \<Rightarrow> n),
               ci_container_name = cs_name status,
               ci_container_id = container_id_full,
               ci_image_id = cs_image_id status\<rparr>)))) pods"

text \<open>The two passes: running containers first.\<close>

definition identity_from_pods :: "pod list \<Rightarrow> string \<Rightarrow> container_identity option" where
  "identity_from_pods pods container_id =
     (case match_container pods container_id running_container_id of
        None \<Rightarrow> match_container pods container_id terminated_container_id
      | Some identity \<Rightarrow> Some identity)"

text \<open>\<open>ends_with\<close> is implied by \<open>contains\<close>, so the test is \<open>contains\<close> alone.\<close>

lemma names_container_iff: "names_container r c \<longleftrightarrow> sublist c r"
  by (auto simp: names_container_def contains_iff ends_with_iff suffix_imp_sublist)

section \<open>What a match is\<close>

definition statuses_of :: "pod \<Rightarrow> container_status list" where
  "statuses_of p = (case pod_status p of None \<Rightarrow> [] | Some ps \<Rightarrow>
     (case ps_container_statuses ps of None \<Rightarrow> [] | Some ss \<Rightarrow> ss))"

definition identity_in :: "pod \<Rightarrow> container_status \<Rightarrow> string \<Rightarrow> container_identity" where
  "identity_in p st full =
     \<lparr>ci_namespace = (case om_namespace (pod_metadata p) of None \<Rightarrow> ''default'' | Some n \<Rightarrow> n),
      ci_pod_name = (case om_name (pod_metadata p) of None \<Rightarrow> ''unknown'' | Some n \<Rightarrow> n),
      ci_container_name = cs_name st, ci_container_id = full, ci_image_id = cs_image_id st\<rparr>"

text \<open>All matches, in the order the pass visits them.\<close>

definition candidates ::
  "(container_status \<Rightarrow> string option) \<Rightarrow> string \<Rightarrow> pod \<Rightarrow> container_identity list" where
  "candidates candidate cid p =
     List.map_filter (\<lambda>st. map_option (\<lambda>(st, full). identity_in p st full) (match_status cid candidate st))
       (statuses_of p)"

definition first_of :: "'a list \<Rightarrow> 'a option" where
  "first_of xs = (case xs of [] \<Rightarrow> None | x # _ \<Rightarrow> Some x)"

lemma first_of_simps [simp]: "first_of [] = None" "first_of (x # xs) = Some x"
  by (simp_all add: first_of_def)

lemma first_of_None_iff: "first_of xs = None \<longleftrightarrow> xs = []"
  by (cases xs) simp_all

lemma first_of_in: "first_of xs = Some x \<Longrightarrow> x \<in> set xs"
  by (cases xs) simp_all

lemma first_of_append: "first_of (xs @ ys) = (case first_of xs of None \<Rightarrow> first_of ys | Some x \<Rightarrow> Some x)"
  by (cases xs) simp_all

lemma find_map_option: "find_map f xs = first_of (List.map_filter f xs)"
  by (induction xs) (auto simp: map_filter_simps split: option.split)

lemma map_filter_option: "List.map_filter (\<lambda>x. map_option g (f x)) xs = map g (List.map_filter f xs)"
  by (induction xs) (auto simp: map_filter_simps split: option.split)

lemma first_of_map: "first_of (map f xs) = map_option f (first_of xs)"
  by (cases xs) simp_all

lemma bind_Some_pair: "Option.bind m (\<lambda>(a, b). Some (f a b)) = map_option (\<lambda>(a, b). f a b) m"
  by (cases m) auto

lemma first_candidate:
  "first_of (candidates candidate cid p) =
     Option.bind (pod_status p) (\<lambda>ps. Option.bind (ps_container_statuses ps) (\<lambda>statuses.
        Option.bind (find_map (match_status cid candidate) statuses)
          (\<lambda>(status, full). Some (identity_in p status full))))"
  by (cases "pod_status p"; cases "ps_container_statuses (the (pod_status p))")
     (simp_all add: candidates_def statuses_of_def map_filter_option first_of_map find_map_option
       bind_Some_pair map_filter_simps)

lemma match_container_eq:
  "match_container pods cid candidate = first_of (concat (map (candidates candidate cid) pods))"
  unfolding match_container_def identity_in_def [symmetric] first_candidate [symmetric]
  by (induction pods) (simp_all add: first_of_append split: option.split)

lemma in_candidates:
  "i \<in> set (candidates candidate cid p) \<longleftrightarrow>
     (\<exists>st \<in> set (statuses_of p). \<exists>full. candidate st = Some full \<and> sublist cid full \<and> i = identity_in p st full)"
  unfolding candidates_def set_map_filter
  by (auto simp: match_status_def names_container_iff split: option.splits if_splits)

lemma match_container_None_iff:
  "match_container pods cid candidate = None \<longleftrightarrow> (\<forall>p \<in> set pods. candidates candidate cid p = [])"
  by (simp add: match_container_eq first_of_None_iff)

lemma match_container_in:
  "match_container pods cid candidate = Some i \<Longrightarrow> \<exists>p \<in> set pods. i \<in> set (candidates candidate cid p)"
  by (auto simp: match_container_eq dest: first_of_in)

text \<open>Some status of some pod carries the id, as the running or as the replaced container.\<close>

definition named_by :: "(container_status \<Rightarrow> string option) \<Rightarrow> string \<Rightarrow> pod list \<Rightarrow> container_identity \<Rightarrow> bool" where
  "named_by candidate cid pods i \<longleftrightarrow>
     (\<exists>p \<in> set pods. \<exists>st \<in> set (statuses_of p). \<exists>full.
        candidate st = Some full \<and> sublist cid full \<and> i = identity_in p st full)"

lemma named_by_candidates:
  "named_by candidate cid pods i \<longleftrightarrow> (\<exists>p \<in> set pods. i \<in> set (candidates candidate cid p))"
  by (simp add: named_by_def in_candidates)

lemma match_container_named:
  "match_container pods cid candidate = Some i \<Longrightarrow> named_by candidate cid pods i"
  "match_container pods cid candidate = None \<longleftrightarrow> (\<nexists>i. named_by candidate cid pods i)"
proof -
  show "match_container pods cid candidate = Some i \<Longrightarrow> named_by candidate cid pods i"
    by (simp add: named_by_candidates match_container_in)
  have "xs = [] \<longleftrightarrow> (\<forall>x. x \<notin> set xs)" for xs :: "container_identity list" by (cases xs) auto
  then show "match_container pods cid candidate = None \<longleftrightarrow> (\<nexists>i. named_by candidate cid pods i)"
    unfolding named_by_candidates match_container_None_iff by blast
qed

text \<open>
  (C17) The identity comes from a container status that carries the id, its two ids verbatim as
  the kubelet reports them: from a running container whenever one carries the id, from a
  replaced one (\<open>lastState.terminated\<close>) otherwise; and nothing is found only if neither
  kind carries it in any pod of the node.
\<close>

theorem identity_from_pods_exact:
  "(\<forall>i. identity_from_pods pods cid = Some i \<longrightarrow>
        named_by running_container_id cid pods i
        \<or> ((\<nexists>j. named_by running_container_id cid pods j) \<and> named_by terminated_container_id cid pods i))
   \<and> (identity_from_pods pods cid = None \<longleftrightarrow>
        (\<nexists>i. named_by running_container_id cid pods i) \<and> (\<nexists>i. named_by terminated_container_id cid pods i))"
  using match_container_named [of pods cid]
  by (auto simp: identity_from_pods_def split: option.splits)

text \<open>A pod with one restarted container, for the witnesses.\<close>

definition restarted_status :: "string \<Rightarrow> string \<Rightarrow> container_status" where
  "restarted_status new old =
     \<lparr>cs_name = ''api'', cs_container_id = Some new, cs_image_id = ''repo@sha256:abc'',
      cs_last_state = Some \<lparr>st_terminated = Some \<lparr>ct_container_id = Some old, ct_exit_code = 137\<rparr>\<rparr>\<rparr>"

definition sample_pod :: "string \<Rightarrow> container_status list \<Rightarrow> pod" where
  "sample_pod name statuses =
     \<lparr>pod_metadata = \<lparr>om_name = Some name, om_namespace = Some ''prod'', om_uid = Some ''u1'',
        om_managed_fields = Some [''kubelet''], om_annotations = Some [(''a'', ''b'')]\<rparr>,
      pod_spec = Some ''spec'', pod_status = Some \<lparr>ps_container_statuses = Some statuses\<rparr>\<rparr>"

theorem identity_from_pods_exact_witness:
  "identity_from_pods [sample_pod ''api-7d9'' [restarted_status ''containerd://new'' ''containerd://old'']] ''old'' \<noteq> None"
proof -
  have "named_by terminated_container_id ''old''
      [sample_pod ''api-7d9'' [restarted_status ''containerd://new'' ''containerd://old'']]
      (identity_in (sample_pod ''api-7d9'' [restarted_status ''containerd://new'' ''containerd://old''])
        (restarted_status ''containerd://new'' ''containerd://old'') ''containerd://old'')"
    by (auto simp: named_by_def sample_pod_def statuses_of_def restarted_status_def
        terminated_container_id_def contains_iff [symmetric])
  then show ?thesis using identity_from_pods_exact by blast
qed

text \<open>
  The order in which the cache hands out the pods is unspecified, and does not matter
  where an id is unique: if every running match gives the same identity, that is the result for
  every order of the pods, and however often one is repeated.
\<close>

lemma identity_order_independent:
  assumes "named_by running_container_id cid pods i"
    and "\<And>j. named_by running_container_id cid pods j \<Longrightarrow> j = i"
    and "set pods' = set pods"
  shows "identity_from_pods pods' cid = Some i"
proof -
  have same: "named_by running_container_id cid pods' j \<longleftrightarrow> named_by running_container_id cid pods j" for j
    by (simp add: named_by_def assms(3))
  with assms(1) match_container_named(2) [of pods' cid running_container_id]
  obtain j where "match_container pods' cid running_container_id = Some j" by auto
  with match_container_named(1) same assms(2) show ?thesis
    by (fastforce simp: identity_from_pods_def)
qed

end
