(* ===== verification/Pod_Cache.thy ===== *)
theory Pod_Cache
  imports Pods
begin

text \<open>
  The pod cache of \<open>oom-watcher/src/kubernetes.rs\<close>: the watch stream trims each pod, feeds the
  reflector's store and reports deletions; lookups read the store once it has had its first
  list. \<open>kube::runtime::reflector\<close> is not part of the sources: a locale says what its store
  holds after each event and when its latch is set, and the interpretation is a pair of
  association lists with the swap on \<open>InitDone\<close>.
\<close>

section \<open>Trimming\<close>

definition prune_for_cache :: "pod \<Rightarrow> pod" where
  "prune_for_cache p =
     p\<lparr>pod_spec := None,
        pod_metadata := (pod_metadata p)\<lparr>om_managed_fields := None, om_annotations := None\<rparr>\<rparr>"

lemma prune_simps [simp]:
  "pod_spec (prune_for_cache p) = None"
  "om_managed_fields (pod_metadata (prune_for_cache p)) = None"
  "om_annotations (pod_metadata (prune_for_cache p)) = None"
  "om_namespace (pod_metadata (prune_for_cache p)) = om_namespace (pod_metadata p)"
  "om_name (pod_metadata (prune_for_cache p)) = om_name (pod_metadata p)"
  "om_uid (pod_metadata (prune_for_cache p)) = om_uid (pod_metadata p)"
  "pod_status (prune_for_cache p) = pod_status p"
  by (simp_all add: prune_for_cache_def)

lemma prune_idem [simp]: "prune_for_cache (prune_for_cache p) = prune_for_cache p"
  by (simp add: prune_for_cache_def)

lemma candidates_prune [simp]: "candidates candidate cid (prune_for_cache p) = candidates candidate cid p"
  by (simp add: candidates_def statuses_of_def identity_in_def)

lemma match_container_prune:
  "match_container (map prune_for_cache pods) cid candidate = match_container pods cid candidate"
  by (simp add: match_container_eq comp_def)

text \<open>
  (C39) Trimming is invisible to resolution and to the store's key: the lookup over the trimmed
  pods is the lookup over the pods as the API server sent them, although no trimmed pod keeps
  its spec, managed fields or annotations.
\<close>

theorem pruning_preserves_resolution:
  "identity_from_pods (map prune_for_cache pods) cid = identity_from_pods pods cid
   \<and> (\<forall>p \<in> set (map prune_for_cache pods). pod_spec p = None \<and> om_managed_fields (pod_metadata p) = None
        \<and> om_annotations (pod_metadata p) = None)
   \<and> (\<forall>p. om_namespace (pod_metadata (prune_for_cache p)) = om_namespace (pod_metadata p)
        \<and> om_name (pod_metadata (prune_for_cache p)) = om_name (pod_metadata p))"
  by (simp add: identity_from_pods_def match_container_prune cong: option.case_cong)

theorem pruning_preserves_resolution_witness:
  "identity_from_pods (map prune_for_cache
     [sample_pod ''a'' [restarted_status ''containerd://x'' ''containerd://w'']]) ''w''
   = identity_from_pods [sample_pod ''a'' [restarted_status ''containerd://x'' ''containerd://w'']] ''w''"
  using pruning_preserves_resolution
    [of "[sample_pod ''a'' [restarted_status ''containerd://x'' ''containerd://w'']]" "''w''"] by blast

section \<open>The watch stream\<close>

text \<open>\<open>watcher::Event\<close>; an item of the stream may also be an error.\<close>

datatype watch_event =
    Apply pod
  | Delete pod
  | Init
  | InitApply pod
  | InitDone

datatype watch_item = Item watch_event | Watch_error string

text \<open>\<open>.modify(f)\<close> applies \<open>f\<close> to the object of an event.\<close>

fun modify_event :: "(pod \<Rightarrow> pod) \<Rightarrow> watch_event \<Rightarrow> watch_event" where
  "modify_event f (Apply p) = Apply (f p)"
| "modify_event f (Delete p) = Delete (f p)"
| "modify_event f Init = Init"
| "modify_event f (InitApply p) = InitApply (f p)"
| "modify_event f InitDone = InitDone"

type_synonym pod_key = "string option \<times> string option"

definition pod_key :: "pod \<Rightarrow> pod_key" where
  "pod_key p = (om_namespace (pod_metadata p), om_name (pod_metadata p))"

text \<open>The closure given to \<open>for_each\<close>; \<open>gone\<close> is \<open>on_pod_deleted\<close>, acting on a state \<open>w\<close>.\<close>

definition on_watch_item :: "(string \<Rightarrow> string \<Rightarrow> 'w \<Rightarrow> 'w) \<Rightarrow> watch_item \<Rightarrow> 'w \<Rightarrow> 'w" where
  "on_watch_item gone item w =
     (case item of
        Item (Delete p) \<Rightarrow>
          (case (om_namespace (pod_metadata p), om_name (pod_metadata p)) of
             (Some namespace, Some name) \<Rightarrow> gone namespace name w
           | _ \<Rightarrow> w)
      | _ \<Rightarrow> w)"

text \<open>
  The task of \<open>PodCache::spawn\<close>: each item is trimmed, applied to the store, then handed to
  the closure. An error leaves the store alone; the stream goes on (the backoff never gives up).
\<close>

fun cache_task ::
  "(watch_event \<Rightarrow> 's \<Rightarrow> 's) \<Rightarrow> (string \<Rightarrow> string \<Rightarrow> 'w \<Rightarrow> 'w) \<Rightarrow> watch_item list \<Rightarrow> 's \<times> 'w \<Rightarrow> 's \<times> 'w" where
  "cache_task apply_ev gone [] (s, w) = (s, w)"
| "cache_task apply_ev gone (item # items) (s, w) =
     (let item' = (case item of Item ev \<Rightarrow> Item (modify_event prune_for_cache ev) | Watch_error e \<Rightarrow> Watch_error e);
          s' = (case item' of Item ev \<Rightarrow> apply_ev ev s | Watch_error e \<Rightarrow> s)
      in cache_task apply_ev gone items (s', on_watch_item gone item' w))"

text \<open>The selector that scopes the watch to this node.\<close>

definition field_selector :: "string \<Rightarrow> string" where
  "field_selector node_name = ''spec.nodeName='' @ node_name"

section \<open>The reflector's store\<close>

datatype latch = Latched | Writer_gone string | Waiting

record 's store_ops =
  so_apply :: "watch_event \<Rightarrow> 's \<Rightarrow> 's"
  so_state :: "'s \<Rightarrow> pod list"
  so_latch :: "'s \<Rightarrow> latch"

locale reflector =
  fixes R :: "'s store_ops"
    and stored :: "'s \<Rightarrow> pod_key \<Rightarrow> pod option"
    and listing :: "'s \<Rightarrow> pod_key \<Rightarrow> pod option" \<comment> \<open>the list under way\<close>
  assumes state_stored: "set (so_state R s) = ran (stored s)"
    and apply_stored: "stored (so_apply R (Apply p) s) = (stored s)(pod_key p \<mapsto> p)"
      "stored (so_apply R (Delete p) s) = (stored s)(pod_key p := None)"
      "stored (so_apply R Init s) = stored s"
      "stored (so_apply R (InitApply p) s) = stored s"
      "stored (so_apply R InitDone s) = listing s"
    and apply_listing: "listing (so_apply R (Apply p) s) = listing s"
      "listing (so_apply R (Delete p) s) = listing s"
      "listing (so_apply R Init s) = Map.empty"
      "listing (so_apply R (InitApply p) s) = (listing s)(pod_key p \<mapsto> p)"
      "listing (so_apply R InitDone s) = Map.empty"
    and latch: "so_latch R s = Writer_gone e \<Longrightarrow> so_latch R (so_apply R ev s) = Writer_gone e"
      "so_latch R s \<noteq> Writer_gone e \<Longrightarrow> so_latch R (so_apply R ev s) \<noteq> Writer_gone e"
      "so_latch R s = Latched \<Longrightarrow> so_latch R (so_apply R ev s) = Latched"
      "so_latch R s = Waiting \<Longrightarrow> so_latch R (so_apply R ev s) = (if ev = InitDone then Latched else Waiting)"

text \<open>Association lists, with the swap.\<close>

record assoc_store =
  as_store :: "(pod_key \<times> pod) list"
  as_buffer :: "(pod_key \<times> pod) list"
  as_latch :: latch

fun assoc_apply :: "watch_event \<Rightarrow> assoc_store \<Rightarrow> assoc_store" where
  "assoc_apply (Apply p) s = s\<lparr>as_store := AList.update (pod_key p) p (as_store s)\<rparr>"
| "assoc_apply (Delete p) s = s\<lparr>as_store := AList.delete (pod_key p) (as_store s)\<rparr>"
| "assoc_apply Init s = s\<lparr>as_buffer := []\<rparr>"
| "assoc_apply (InitApply p) s = s\<lparr>as_buffer := AList.update (pod_key p) p (as_buffer s)\<rparr>"
| "assoc_apply InitDone s =
     s\<lparr>as_store := as_buffer s, as_buffer := [],
        as_latch := (if as_latch s = Waiting then Latched else as_latch s)\<rparr>"

definition assoc_reflector :: "assoc_store store_ops" where
  "assoc_reflector =
     \<lparr>so_apply = assoc_apply, so_state = (\<lambda>s. map snd (AList.clearjunk (as_store s))), so_latch = as_latch\<rparr>"

definition assoc_store_new :: assoc_store where
  "assoc_store_new = \<lparr>as_store = [], as_buffer = [], as_latch = Waiting\<rparr>"

lemma assoc_latch_apply:
  "as_latch (assoc_apply ev s) = (if ev = InitDone \<and> as_latch s = Waiting then Latched else as_latch s)"
  by (cases ev) auto

interpretation ar: reflector assoc_reflector "\<lambda>s. map_of (as_store s)" "\<lambda>s. map_of (as_buffer s)"
  by unfold_locales
     (simp_all add: assoc_reflector_def assoc_latch_apply update_conv' delete_conv'
       ran_map_of fun_upd_def)

section \<open>Lookups\<close>

definition ensure_synced :: "'s store_ops \<Rightarrow> 's \<Rightarrow> string + unit" where
  "ensure_synced R s =
     (case so_latch R s of
        Latched \<Rightarrow> Inr ()
      | Writer_gone e \<Rightarrow> Inl (''the pod cache stopped being maintained: '' @ e)
      | Waiting \<Rightarrow> Inl ''the pod cache has not finished its initial list of the pods on this node'')"

definition identity_of :: "'s store_ops \<Rightarrow> 's \<Rightarrow> string \<Rightarrow> string + container_identity option" where
  "identity_of R s container_id =
     (case ensure_synced R s of
        Inl e \<Rightarrow> Inl e
      | Inr _ \<Rightarrow> Inr (identity_from_pods (so_state R s) container_id))"

text \<open>
  \<open>tokio::time::timeout(timeout, wait_until_ready())\<close>, with the latch as it is at each second
  from the call: the second at which the wait returns.
\<close>

definition wait_until_synced :: "(nat \<Rightarrow> latch) \<Rightarrow> nat \<Rightarrow> nat" where
  "wait_until_synced latch_at timeout =
     (case find (\<lambda>t. latch_at t \<noteq> Waiting) [0..<timeout] of None \<Rightarrow> timeout | Some t \<Rightarrow> t)"

section \<open>The cache mirrors the API server\<close>

text \<open>
  What the watch has said of the node, in full: the pods that exist, the list under way, and
  whether a list has finished.
\<close>

record node_view =
  nv_pods :: "pod_key \<Rightarrow> pod option"
  nv_listing :: "pod_key \<Rightarrow> pod option"
  nv_synced :: bool

definition view_new :: node_view where
  "view_new = \<lparr>nv_pods = Map.empty, nv_listing = Map.empty, nv_synced = False\<rparr>"

fun view_item :: "watch_item \<Rightarrow> node_view \<Rightarrow> node_view" where
  "view_item (Item (Apply p)) v = v\<lparr>nv_pods := (nv_pods v)(pod_key p \<mapsto> p)\<rparr>"
| "view_item (Item (Delete p)) v = v\<lparr>nv_pods := (nv_pods v)(pod_key p := None)\<rparr>"
| "view_item (Item Init) v = v\<lparr>nv_listing := Map.empty\<rparr>"
| "view_item (Item (InitApply p)) v = v\<lparr>nv_listing := (nv_listing v)(pod_key p \<mapsto> p)\<rparr>"
| "view_item (Item InitDone) v =
     v\<lparr>nv_pods := nv_listing v, nv_listing := Map.empty, nv_synced := True\<rparr>"
| "view_item (Watch_error e) v = v"

definition node_view_of :: "watch_item list \<Rightarrow> node_view" where
  "node_view_of items = fold view_item items view_new"

definition deletions :: "watch_item list \<Rightarrow> (string \<times> string) list" where
  "deletions items = List.map_filter (\<lambda>item. case item of
     Item (Delete p) \<Rightarrow> (case pod_key p of (Some ns, Some name) \<Rightarrow> Some (ns, name) | _ \<Rightarrow> None)
   | _ \<Rightarrow> None) items"

lemma pod_key_prune [simp]: "pod_key (prune_for_cache p) = pod_key p"
  by (simp add: pod_key_def)

lemma deletions_reported:
  "snd (cache_task apply_ev gone items (s, w)) = fold (\<lambda>(ns, name). gone ns name) (deletions items) w"
proof (induction items arbitrary: s w)
  case Nil
  then show ?case by (simp add: deletions_def)
next
  case (Cons item items)
  then show ?case
    by (cases item; cases "case item of Item ev \<Rightarrow> ev")
       (auto simp: Let_def deletions_def on_watch_item_def map_filter_simps pod_key_def
         split: option.splits)
qed

context reflector
begin

definition mirrors :: "'s \<Rightarrow> node_view \<Rightarrow> bool" where
  "mirrors s v \<longleftrightarrow>
     (\<forall>k. stored s k = map_option prune_for_cache (nv_pods v k))
     \<and> (\<forall>k. listing s k = map_option prune_for_cache (nv_listing v k))
     \<and> so_latch R s = (if nv_synced v then Latched else Waiting)"

lemma mirrors_item:
  "mirrors s v \<Longrightarrow> mirrors (so_apply R (modify_event prune_for_cache ev) s) (view_item (Item ev) v)"
  by (cases ev; cases "nv_synced v") (auto simp: mirrors_def apply_stored apply_listing latch)

lemma mirrors_task:
  "mirrors s v \<Longrightarrow> mirrors (fst (cache_task (so_apply R) gone items (s, w))) (fold view_item items v)"
proof (induction items arbitrary: s v w)
  case Nil
  then show ?case by simp
next
  case (Cons item items)
  then show ?case
    by (cases item) (simp_all add: Let_def mirrors_item)
qed

lemma mirrored_pods:
  assumes "mirrors s v"
  shows "set (so_state R s) = prune_for_cache ` ran (nv_pods v)"
  using assms unfolding state_stored mirrors_def by (force simp: ran_def)

lemma mirrored_named:
  assumes "mirrors s v"
  shows "named_by candidate cid (so_state R s) i
       \<longleftrightarrow> (\<exists>p \<in> ran (nv_pods v). i \<in> set (candidates candidate cid p))"
  by (simp add: named_by_candidates mirrored_pods [OF assms])

end

text \<open>A store that has seen nothing yet.\<close>

definition fresh_store :: "'s store_ops \<Rightarrow> ('s \<Rightarrow> pod_key \<Rightarrow> pod option) \<Rightarrow> ('s \<Rightarrow> pod_key \<Rightarrow> pod option) \<Rightarrow> 's \<Rightarrow> bool" where
  "fresh_store R stored listing s \<longleftrightarrow>
     stored s = Map.empty \<and> listing s = Map.empty \<and> so_latch R s = Waiting"

lemma fresh_assoc_store:
  "fresh_store assoc_reflector (\<lambda>s. map_of (as_store s)) (\<lambda>s. map_of (as_buffer s)) assoc_store_new"
  by (simp add: fresh_store_def assoc_store_new_def assoc_reflector_def)

lemma fresh_mirrors:
  assumes "reflector R stored listing" "fresh_store R stored listing s"
  shows "reflector.mirrors R stored listing s view_new"
  using assms(2) by (simp add: reflector.mirrors_def [OF assms(1)] fresh_store_def view_new_def)

lemmas cache_mirrors = reflector.mirrors_task [OF _ fresh_mirrors, folded node_view_of_def]

text \<open>
  (C16) The cache is the node: after any stream of watch items, errors and relists included, the
  store holds exactly the trimmed pods that the API server has said exist, its latch is set as
  soon as a first list has finished, and every deletion that names a pod has been reported
  once, in order.
\<close>

theorem cache_mirrors_node:
  assumes "reflector R stored listing" "fresh_store R stored listing s0"
    and "cache_task (so_apply R) gone items (s0, w0) = (s, w)"
  shows "set (so_state R s) = prune_for_cache ` ran (nv_pods (node_view_of items))
       \<and> so_latch R s = (if nv_synced (node_view_of items) then Latched else Waiting)
       \<and> w = fold (\<lambda>(ns, name). gone ns name) (deletions items) w0"
proof -
  have "reflector.mirrors R stored listing s (node_view_of items)"
    using cache_mirrors [OF assms(1) assms(1,2), of gone items w0] assms(3) by simp
  then show ?thesis
    using deletions_reported [of "so_apply R" gone items s0 w0] assms(3)
    by (simp add: reflector.mirrored_pods [OF assms(1)] reflector.mirrors_def [OF assms(1)])
qed

text \<open>A first list of one pod, an error, and that pod's deletion.\<close>

definition sample_stream :: "pod \<Rightarrow> watch_item list" where
  "sample_stream p = [Item Init, Item (InitApply p), Item InitDone, Watch_error ''gone'', Item (Delete p)]"

theorem cache_mirrors_node_witness:
  "snd (cache_task (so_apply assoc_reflector) (\<lambda>ns name w. w @ [(ns, name)])
      (sample_stream (sample_pod ''api-7d9'' [])) (assoc_store_new, [])) = [(''prod'', ''api-7d9'')]"
proof -
  obtain s w where e: "cache_task (so_apply assoc_reflector) (\<lambda>ns name w. w @ [(ns, name)])
      (sample_stream (sample_pod ''api-7d9'' [])) (assoc_store_new, []) = (s, w)" by fastforce
  have "deletions (sample_stream (sample_pod ''api-7d9'' [])) = [(''prod'', ''api-7d9'')]"
    by (simp add: deletions_def sample_stream_def map_filter_simps pod_key_def sample_pod_def)
  with cache_mirrors_node [OF ar.reflector_axioms fresh_assoc_store e] e show ?thesis by simp
qed

text \<open>
  (C15) A miss is evidence: a lookup says "no such container" exactly when a first list has
  finished and no pod of the node carries the id, running or replaced; before that it is an
  error. An identity that it returns is that of a container of an existing pod.
\<close>

theorem lookup_reflects_node:
  assumes "reflector R stored listing" "fresh_store R stored listing s0"
    and "s = fst (cache_task (so_apply R) gone items (s0, w0))"
    and "pods = ran (nv_pods (node_view_of items))"
  shows "(identity_of R s cid = Inr None \<longleftrightarrow> nv_synced (node_view_of items)
            \<and> (\<forall>p \<in> pods. candidates running_container_id cid p = [] \<and> candidates terminated_container_id cid p = []))
       \<and> (\<forall>i. identity_of R s cid = Inr (Some i) \<longrightarrow> (\<exists>p \<in> pods.
            i \<in> set (candidates running_container_id cid p) \<or> i \<in> set (candidates terminated_container_id cid p)))
       \<and> ((\<exists>e. identity_of R s cid = Inl e) \<longleftrightarrow> \<not> nv_synced (node_view_of items))"
proof -
  have m: "reflector.mirrors R stored listing s (node_view_of items)"
    using cache_mirrors [OF assms(1) assms(1,2), of gone items w0] assms(3) by simp
  note pods = reflector.mirrored_pods [OF assms(1) m]
  have latch: "so_latch R s = (if nv_synced (node_view_of items) then Latched else Waiting)"
    using m by (simp add: reflector.mirrors_def [OF assms(1)])
  have none: "identity_from_pods (so_state R s) cid = None \<longleftrightarrow>
      (\<forall>p \<in> pods. candidates running_container_id cid p = [] \<and> candidates terminated_container_id cid p = [])"
  proof -
    have "identity_from_pods (so_state R s) cid = None \<longleftrightarrow>
        match_container (so_state R s) cid running_container_id = None
        \<and> match_container (so_state R s) cid terminated_container_id = None"
      by (simp add: identity_from_pods_def split: option.split)
    then show ?thesis unfolding match_container_None_iff pods assms(4) by auto
  qed
  have some: "\<exists>p \<in> pods. i \<in> set (candidates running_container_id cid p) \<or> i \<in> set (candidates terminated_container_id cid p)"
    if "identity_from_pods (so_state R s) cid = Some i" for i
    using that match_container_in [of "so_state R s" cid] unfolding pods assms(4)
    by (fastforce simp: identity_from_pods_def split: option.splits)
  show ?thesis
    using none some by (auto simp: identity_of_def ensure_synced_def latch)
qed

theorem lookup_reflects_node_witness:
  "identity_of assoc_reflector (fst (cache_task (so_apply assoc_reflector) (\<lambda>ns name w. w)
      (sample_stream (sample_pod ''api-7d9'' [])) (assoc_store_new, ()))) ''abc'' = Inr None"
proof -
  let ?items = "sample_stream (sample_pod ''api-7d9'' [])"
  have "nv_synced (node_view_of ?items)" "ran (nv_pods (node_view_of ?items)) = {}"
    by (simp_all add: node_view_of_def sample_stream_def view_new_def ran_def)
  with lookup_reflects_node [OF ar.reflector_axioms fresh_assoc_store refl refl, of "\<lambda>ns name w. w" ?items "()" "''abc''"]
  show ?thesis by simp
qed

end
