(* ===== verification/Cgroup.thy ===== *)
theory Cgroup
  imports Rust_Str
begin

text \<open>
  The container-id patterns of \<open>oom-watcher/src/kubernetes.rs\<close> and \<open>extract_container_id\<close>.
  The \<open>regex\<close> crate is not part of the sources. Its \<open>captures\<close> is a parameter; the locale
  states what the crate documents of it, leftmost-first matching with Perl's preferences, by
  the ordered list of the matches of a pattern at a position. The patterns are transcribed
  constructor by constructor. Text is bytes: the patterns name only ASCII, so a multi-byte
  character can be one or several characters of \<open>.\<close> or of a complement without a difference to
  the captured group.
\<close>

section \<open>Patterns and the documented semantics\<close>

datatype pattern =
    Lit string
  | Class "char \<Rightarrow> bool"
  | Exactly nat "char \<Rightarrow> bool" \<comment> \<open>\<open>[..]{n}\<close>\<close>
  | Lazily "char \<Rightarrow> bool" \<comment> \<open>\<open>[..]*?\<close>\<close>
  | Group pattern \<comment> \<open>the capture group 1\<close>
  | Seq pattern pattern
  | Alt pattern pattern
  | End

text \<open>What \<open>[..]*?\<close> can leave, shortest match first.\<close>

fun lazily :: "(char \<Rightarrow> bool) \<Rightarrow> string \<Rightarrow> string list" where
  "lazily p [] = [[]]"
| "lazily p (c # s) = (c # s) # (if p c then lazily p s else [])"

text \<open>A group that matched later replaces an earlier match of it.\<close>

definition later_group :: "string option \<Rightarrow> (string option \<times> string) \<Rightarrow> string option \<times> string" where
  "later_group g = map_prod (\<lambda>g'. case g' of None \<Rightarrow> g | Some w \<Rightarrow> Some w) (\<lambda>r. r)"

text \<open>The matches at the front of a text, preferred ones first: group 1 and the rest.\<close>

fun matches :: "pattern \<Rightarrow> string \<Rightarrow> (string option \<times> string) list" where
  "matches (Lit w) s = (case strip_prefix w s of None \<Rightarrow> [] | Some r \<Rightarrow> [(None, r)])"
| "matches (Class p) s = (case s of [] \<Rightarrow> [] | c # r \<Rightarrow> if p c then [(None, r)] else [])"
| "matches (Exactly n p) s =
     (if n \<le> length s \<and> list_all p (take n s) then [(None, drop n s)] else [])"
| "matches (Lazily p) s = map (Pair None) (lazily p s)"
| "matches (Group re) s = map (\<lambda>(g, r). (Some (take (length s - length r) s), r)) (matches re s)"
| "matches (Seq a b) s =
     concat (map (\<lambda>(g, r). map (later_group g) (matches b r)) (matches a s))"
| "matches (Alt a b) s = matches a s @ matches b s"
| "matches End s = (if s = [] then [(None, [])] else [])"

fun best :: "(string option \<times> string) list \<Rightarrow> string option option" where
  "best [] = None"
| "best ((g, r) # ms) = Some g"

text \<open>The leftmost position with a match, and its preferred match.\<close>

fun leftmost_first :: "pattern \<Rightarrow> string \<Rightarrow> string option option" where
  "leftmost_first re [] = best (matches re [])"
| "leftmost_first re (c # s) =
     (case best (matches re (c # s)) of None \<Rightarrow> leftmost_first re s | Some g \<Rightarrow> Some g)"

locale regex_engine =
  fixes captures :: "pattern \<Rightarrow> string \<Rightarrow> string option option"
  assumes captures_leftmost_first: "captures re text = leftmost_first re text"

interpretation perl: regex_engine leftmost_first
  by unfold_locales simp

section \<open>The patterns\<close>

definition hex :: "char \<Rightarrow> bool" where
  "hex c \<longleftrightarrow> c \<in> set ''0123456789abcdef''"

definition dash_or_slash :: "char \<Rightarrow> bool" where
  "dash_or_slash c \<longleftrightarrow> c = CHR ''-'' \<or> c = CHR ''/''"

text \<open>\<open>([0-9a-f]{64})(?:[^0-9a-f]|$)\<close>.\<close>

definition ID_PATTERN :: pattern where
  "ID_PATTERN = Seq (Group (Exactly 64 hex)) (Alt (Class (\<lambda>c. \<not> hex c)) End)"

definition CONTAINER_ID_PATTERNS :: "pattern list" where
  "CONTAINER_ID_PATTERNS =
     [Seq (Alt (Lit ''cri-containerd'') (Alt (Lit ''crio'') (Alt (Lit ''docker'') (Lit ''libpod''))))
        (Seq (Class dash_or_slash) ID_PATTERN),
      Seq (Lit ''/kubepods'') (Seq (Lazily (\<lambda>c. c \<noteq> newline)) (Seq (Lit ''/'') ID_PATTERN)),
      Seq (Class dash_or_slash) ID_PATTERN]"

definition extract_container_id ::
  "(pattern \<Rightarrow> string \<Rightarrow> string option option) \<Rightarrow> string \<Rightarrow> string option" where
  "extract_container_id captures cgroup =
     find_map (\<lambda>re. Option.bind (captures re cgroup) (\<lambda>c. c)) CONTAINER_ID_PATTERNS"

section \<open>What each pattern finds\<close>

text \<open>A full-length id at the front of a text: 64 hex digits and then no further one.\<close>

definition id_here :: "string \<Rightarrow> string option" where
  "id_here s =
     (if 64 \<le> length s \<and> list_all hex (take 64 s) \<and> (drop 64 s = [] \<or> \<not> hex (hd (drop 64 s)))
      then Some (take 64 s) else None)"

definition delimited_id :: "string \<Rightarrow> string option" where
  "delimited_id s = (case s of [] \<Rightarrow> None | d # r \<Rightarrow> if dash_or_slash d then id_here r else None)"

definition slash_id :: "string \<Rightarrow> string option" where
  "slash_id s = (case s of [] \<Rightarrow> None | d # r \<Rightarrow> if d = CHR ''/'' then id_here r else None)"

definition RUNTIMES :: "string list" where
  "RUNTIMES = [''cri-containerd'', ''crio'', ''docker'', ''libpod'']"

definition runtime_id :: "string \<Rightarrow> string option" where
  "runtime_id s = find_map (\<lambda>w. Option.bind (strip_prefix w s) delimited_id) RUNTIMES"

definition kubepods_id :: "string \<Rightarrow> string option" where
  "kubepods_id s =
     Option.bind (strip_prefix ''/kubepods'' s) (\<lambda>r. find_map slash_id (lazily (\<lambda>c. c \<noteq> newline) r))"

fun tails :: "'a list \<Rightarrow> 'a list list" where
  "tails [] = [[]]"
| "tails (x # xs) = (x # xs) # tails xs"

lemma set_tails: "t \<in> set (tails s) \<longleftrightarrow> suffix t s"
  by (induction s) (auto simp: suffix_Cons)

lemma best_Nil_iff: "best ms = None \<longleftrightarrow> ms = []"
  by (cases ms) auto

lemma best_append: "best (xs @ ys) = (case best xs of None \<Rightarrow> best ys | Some g \<Rightarrow> Some g)"
  by (cases xs rule: best.cases) auto

lemma later_group_new [simp]: "later_group g (None, r) = (g, r)"
  by (simp add: later_group_def)

lemma later_group_None [simp]: "later_group None m = m"
  by (cases m) (simp add: later_group_def split: option.split)

lemma matches_id:
  "matches ID_PATTERN s = (case id_here s of None \<Rightarrow> []
     | Some w \<Rightarrow> [(Some w, if drop 64 s = [] then [] else tl (drop 64 s))])"
  by (auto simp: ID_PATTERN_def id_here_def split: list.split)

lemma best_id: "best (matches ID_PATTERN s) = map_option Some (id_here s)"
  by (simp add: matches_id split: option.split)

lemma matches_lit_seq:
  "matches (Seq (Lit w) b) s = (case strip_prefix w s of None \<Rightarrow> [] | Some r \<Rightarrow> matches b r)"
  by (auto simp: map_idI split: option.split)

lemma matches_class_seq:
  "matches (Seq (Class p) b) s = (case s of [] \<Rightarrow> [] | c # r \<Rightarrow> if p c then matches b r else [])"
  by (auto simp: map_idI split: option.split list.split)

lemma matches_alt_seq: "matches (Seq (Alt a b) c) s = matches (Seq a c) s @ matches (Seq b c) s"
  by simp

lemma best_lazily_seq:
  "best (matches (Seq (Lazily p) b) s) = find_map (\<lambda>r. best (matches b r)) (lazily p s)"
proof -
  have "best (concat (map (\<lambda>r. map (later_group None) (matches b r)) rs))
      = find_map (\<lambda>r. best (matches b r)) rs" for rs
    by (induction rs) (auto simp: best_append map_idI split: option.split)
  then show ?thesis by (simp add: comp_def)
qed

declare matches.simps(6) [simp del]

lemma best_delimited: "best (matches (Seq (Class dash_or_slash) ID_PATTERN) s) = map_option Some (delimited_id s)"
  by (simp add: matches_class_seq delimited_id_def best_id split: list.split)

lemma best_runtime:
  "best (matches (CONTAINER_ID_PATTERNS ! 0) s) = map_option Some (runtime_id s)"
  by (simp add: CONTAINER_ID_PATTERNS_def matches_alt_seq matches_lit_seq best_append runtime_id_def
      RUNTIMES_def best_delimited split: option.split)

lemma find_map_Some: "find_map (\<lambda>x. map_option Some (f x)) xs = map_option Some (find_map f xs)"
  by (induction xs) (auto split: option.split)

lemma strip_one: "strip_prefix [c] s = (case s of [] \<Rightarrow> None | d # r \<Rightarrow> if c = d then Some r else None)"
  by (cases s) auto

lemma best_kubepods:
  "best (matches (CONTAINER_ID_PATTERNS ! Suc 0) s) = map_option Some (kubepods_id s)"
proof -
  have "best (matches (Seq (Lit ''/'') ID_PATTERN) r) = map_option Some (slash_id r)" for r
    by (auto simp: matches_lit_seq strip_one slash_id_def best_id split: list.split)
  then show ?thesis
    by (simp add: CONTAINER_ID_PATTERNS_def matches_lit_seq kubepods_id_def best_lazily_seq
        find_map_Some split: option.split)
qed

lemma leftmost_first_eq: "leftmost_first re s = find_map (\<lambda>t. best (matches re t)) (tails s)"
  by (induction s) (auto split: option.split)

context regex_engine
begin

text \<open>The extraction, position by position.\<close>

lemma extract_eq:
  "extract_container_id captures s =
     (case find_map runtime_id (tails s) of
        Some w \<Rightarrow> Some w
      | None \<Rightarrow> (case find_map kubepods_id (tails s) of
          Some w \<Rightarrow> Some w
        | None \<Rightarrow> find_map delimited_id (tails s)))"
proof -
  have patterns: "CONTAINER_ID_PATTERNS = [CONTAINER_ID_PATTERNS ! 0, CONTAINER_ID_PATTERNS ! Suc 0,
      Seq (Class dash_or_slash) ID_PATTERN]" by (simp add: CONTAINER_ID_PATTERNS_def)
  have "Option.bind (map_option Some r) (\<lambda>c. c) = r" for r :: "string option" by (cases r) simp_all
  then show ?thesis
    unfolding extract_container_id_def
    by (subst patterns) (simp add: captures_leftmost_first leftmost_first_eq best_runtime
        best_kubepods best_delimited find_map_Some split: option.split)
qed

end

section \<open>Occurrences\<close>

text \<open>\<open>w\<close> stands in \<open>s\<close> as a container id: 64 hex digits between a \<open>-\<close> or \<open>/\<close> and something
  that is no hex digit, or the end.\<close>

definition full_id :: "string \<Rightarrow> string \<Rightarrow> bool" where
  "full_id w post \<longleftrightarrow> length w = 64 \<and> list_all hex w \<and> (post = [] \<or> \<not> hex (hd post))"

lemma id_here_iff: "id_here s = Some w \<longleftrightarrow> (\<exists>post. s = w @ post \<and> full_id w post)"
proof
  assume "id_here s = Some w"
  then have "s = w @ drop 64 s \<and> full_id w (drop 64 s)"
    by (auto simp: id_here_def full_id_def split: if_splits)
  then show "\<exists>post. s = w @ post \<and> full_id w post" by blast
qed (auto simp: id_here_def full_id_def)

lemma delimited_id_iff:
  "delimited_id s = Some w \<longleftrightarrow> (\<exists>d post. s = d # w @ post \<and> dash_or_slash d \<and> full_id w post)"
  by (cases s) (auto simp: delimited_id_def id_here_iff)

lemma slash_id_delimited: "slash_id s = Some w \<Longrightarrow> delimited_id s = Some w"
  by (auto simp: slash_id_def delimited_id_def dash_or_slash_def split: list.splits if_splits)

lemma suffix_strip: "strip_prefix w s = Some r \<Longrightarrow> suffix r s"
  by (simp add: strip_prefix_Some_iff suffixI)

lemma suffix_lazily: "r \<in> set (lazily p s) \<Longrightarrow> suffix r s"
  by (induction s) (auto simp: suffix_Cons split: if_splits)

text \<open>The last pattern subsumes the others.\<close>

lemma runtime_id_delimited:
  "runtime_id s = Some w \<Longrightarrow> \<exists>t. suffix t s \<and> delimited_id t = Some w"
  unfolding runtime_id_def by (auto dest!: find_map_SomeD suffix_strip simp: bind_eq_Some_conv)

lemma kubepods_id_delimited:
  "kubepods_id s = Some w \<Longrightarrow> \<exists>t. suffix t s \<and> delimited_id t = Some w"
  unfolding kubepods_id_def
  by (auto dest!: find_map_SomeD slash_id_delimited suffix_lazily suffix_strip simp: bind_eq_Some_conv
      intro: suffix_order.trans)

lemma found_in_tails:
  assumes "find_map f (tails s) = Some w"
    and "\<And>t. f t = Some w \<Longrightarrow> \<exists>u. suffix u t \<and> delimited_id u = Some w"
  shows "\<exists>u. suffix u s \<and> delimited_id u = Some w"
proof -
  from find_map_SomeD [OF assms(1)] obtain t where t: "suffix t s" "f t = Some w"
    by (auto simp: set_tails)
  from assms(2) [OF t(2)] t(1) show ?thesis by (auto intro: suffix_order.trans)
qed

lemma occurs_iff:
  "(\<exists>u. suffix u s \<and> delimited_id u = Some w)
     \<longleftrightarrow> (\<exists>pre d post. s = pre @ d # w @ post \<and> dash_or_slash d \<and> full_id w post)"
  by (auto simp: suffix_def delimited_id_iff)

context regex_engine
begin

lemma extract_sound:
  "extract_container_id captures s = Some w \<Longrightarrow> \<exists>u. suffix u s \<and> delimited_id u = Some w"
  unfolding extract_eq
  by (auto split: option.splits elim!: found_in_tails
      intro: runtime_id_delimited kubepods_id_delimited)

lemma extract_complete:
  "extract_container_id captures s = None \<Longrightarrow> suffix u s \<Longrightarrow> delimited_id u = None"
  unfolding extract_eq by (auto split: option.splits simp: find_map_None_iff set_tails)

lemma extract_runtime_first:
  "find_map runtime_id (tails s) = Some w \<Longrightarrow> extract_container_id captures s = Some w"
  by (simp add: extract_eq)

end

text \<open>
  (C13) What \<open>extract_container_id\<close> returns is a container id that stands in the file: exactly 64
  lower-case hex digits, right after a \<open>-\<close> or \<open>/\<close> and not followed by another hex digit; and
  whenever the file has such an id, one is returned. So 63 or 65 digits never match, and no
  layout with a delimited id is missed.
\<close>

theorem extract_container_id_exact:
  assumes "regex_engine captures"
  shows "(\<forall>w. extract_container_id captures cgroup = Some w \<longrightarrow>
           (\<exists>pre d post. cgroup = pre @ d # w @ post \<and> dash_or_slash d \<and> full_id w post))
       \<and> (extract_container_id captures cgroup = None \<longleftrightarrow>
           (\<nexists>pre d w post. cgroup = pre @ d # w @ post \<and> dash_or_slash d \<and> full_id w post))"
proof -
  note sound = regex_engine.extract_sound [OF assms, of cgroup]
    and complete = regex_engine.extract_complete [OF assms, of cgroup]
  have "extract_container_id captures cgroup = None \<longleftrightarrow> (\<nexists>w u. suffix u cgroup \<and> delimited_id u = Some w)"
    using sound complete by (metis option.distinct(1) option.exhaust)
  then show ?thesis using sound unfolding occurs_iff by blast
qed

theorem extract_container_id_exact_witness:
  "extract_container_id leftmost_first (''0::/docker-'' @ replicate 64 CHR ''a'') \<noteq> None"
proof -
  have "''0::/docker-'' @ replicate 64 CHR ''a'' = ''0::/docker'' @ CHR ''-'' # replicate 64 CHR ''a'' @ []"
    by simp
  moreover have "dash_or_slash CHR ''-''" "full_id (replicate 64 CHR ''a'') []"
    by (simp_all add: dash_or_slash_def full_id_def hex_def list_all_iff)
  ultimately show ?thesis
    using extract_container_id_exact [OF perl.regex_engine_axioms, of "''0::/docker-'' @ replicate 64 CHR ''a''"]
    by blast
qed

section \<open>Precedence and layouts\<close>

lemma runtime_id_at:
  assumes "rt \<in> set RUNTIMES" "dash_or_slash d" "full_id w post"
  shows "runtime_id (rt @ d # w @ post) = Some w"
proof -
  have "delimited_id (d # w @ post) = Some w" using assms(2,3) by (auto simp: delimited_id_iff)
  with assms(1) show ?thesis by (auto simp: runtime_id_def RUNTIMES_def)
qed

lemma runtime_idD:
  "runtime_id s = Some w \<Longrightarrow>
    \<exists>rt d post. rt \<in> set RUNTIMES \<and> s = rt @ d # w @ post \<and> dash_or_slash d \<and> full_id w post"
  unfolding runtime_id_def
  by (auto dest!: find_map_SomeD simp: bind_eq_Some_conv strip_prefix_Some_iff delimited_id_iff) blast

lemma runtime_has_no_slash: "rt \<in> set RUNTIMES \<Longrightarrow> CHR ''/'' \<notin> set rt"
  by (auto simp: RUNTIMES_def)

lemma no_runtime_before:
  assumes "h = [] \<or> last h = CHR ''/''" "\<And>rt. rt \<in> set RUNTIMES \<Longrightarrow> \<not> contains h rt"
    and "suffix t h" "t \<noteq> []"
  shows "runtime_id (t @ rest) = None"
proof (rule ccontr)
  assume "runtime_id (t @ rest) \<noteq> None"
  then obtain rt r where rt: "rt \<in> set RUNTIMES" "t @ rest = rt @ r" using runtime_idD by fastforce
  from assms(3,4) have "h \<noteq> []" "last t = last h" by (auto simp: suffix_def)
  with assms(1,4) have "CHR ''/'' \<in> set t" using last_in_set [of t] by auto
  from rt(2) consider us where "t = rt @ us" | us where "rt = t @ us"
    by (auto simp: append_eq_append_conv2)
  then show False
  proof cases
    case 1
    from assms(3) obtain zs where "h = zs @ t" unfolding suffix_def by blast
    with 1 have "h = zs @ rt @ us" by simp
    with assms(2) [OF rt(1)] show False unfolding contains_iff sublist_def by blast
  next
    case 2
    with \<open>CHR ''/'' \<in> set t\<close> runtime_has_no_slash [OF rt(1)] show False by simp
  qed
qed

lemma find_map_tails_after:
  "(\<And>t. suffix t h \<Longrightarrow> t \<noteq> [] \<Longrightarrow> f (t @ rest) = None) \<Longrightarrow>
    find_map f (tails (h @ rest)) = find_map f (tails rest)"
proof (induction h)
  case Nil
  then show ?case by simp
next
  case (Cons c h)
  from Cons.prems [of "c # h"] have "f (c # h @ rest) = None" by simp
  with Cons show ?case by (simp add: suffix_Cons)
qed

text \<open>
  (C14) An id that follows a runtime's name (\<open>cri-containerd-\<close>, \<open>crio-\<close>, \<open>docker-\<close> or
  \<open>docker/\<close>, \<open>libpod-\<close>) is the one returned, if it is the first of its kind: whatever path
  stands before it, other 64-digit segments included, and whatever comes after it. With
  \<open>.scope\<close> or the end of the file after the id these are the runtime layouts of the table
  above the patterns.
\<close>

theorem runtime_prefixed_id_wins:
  assumes "regex_engine captures" "rt \<in> set RUNTIMES" "dash_or_slash d" "full_id w post"
    and "h = [] \<or> last h = CHR ''/''" "list_all (\<lambda>rt. \<not> contains h rt) RUNTIMES"
  shows "extract_container_id captures (h @ rt @ d # w @ post) = Some w"
proof -
  have "find_map runtime_id (tails (h @ rt @ d # w @ post)) = find_map runtime_id (tails (rt @ d # w @ post))"
    using assms(5,6) by (intro find_map_tails_after no_runtime_before) (auto simp: list_all_iff)
  also have "\<dots> = Some w"
    using runtime_id_at [OF assms(2-4)] by (cases "rt @ d # w @ post") simp_all
  finally show ?thesis by (rule regex_engine.extract_runtime_first [OF assms(1)])
qed

theorem runtime_prefixed_id_wins_witness:
  "extract_container_id leftmost_first
     ((''0::/kubepods.slice/'' @ replicate 64 CHR ''b'' @ ''/'') @ ''cri-containerd'' @
       CHR ''-'' # replicate 64 CHR ''a'' @ ''.scope'') = Some (replicate 64 CHR ''a'')"
proof (rule runtime_prefixed_id_wins [OF perl.regex_engine_axioms])
  show "list_all (\<lambda>rt. \<not> contains (''0::/kubepods.slice/'' @ replicate 64 CHR ''b'' @ ''/'') rt) RUNTIMES"
    by code_simp
qed (simp_all add: RUNTIMES_def dash_or_slash_def full_id_def hex_def list_all_iff)

end
