(* ===== verification/Client.thy ===== *)
theory Client
  imports Pod_Cache Cgroup
begin

text \<open>
  \<open>KubernetesClient\<close> of \<open>oom-watcher/src/kubernetes.rs\<close>: connecting, reading the cgroup of a
  killed process, and the resolver built from both. The file system is a function from paths
  to contents or errors; the reflector's store and the regex engine are those of their
  theories; the cluster configuration and the API client are opaque results.
\<close>

record 's kubernetes_client =
  kc_pods :: 's
  kc_node_name :: string

text \<open>
  \<open>KubernetesClient::new\<close>: the in-cluster configuration, the API client, \<open>NODE_NAME\<close>, then the
  cache; \<open>spawn\<close> gives the store for a client and a field selector.
\<close>

definition client_new ::
  "string + 'cfg \<Rightarrow> ('cfg \<Rightarrow> string + 'api) \<Rightarrow> string option \<Rightarrow> ('api \<Rightarrow> string \<Rightarrow> 's)
     \<Rightarrow> string + 's kubernetes_client" where
  "client_new incluster try_from node_env spawn =
     (case incluster of
        Inl e \<Rightarrow> Inl (''Failed to create in-cluster config: '' @ e)
      | Inr config \<Rightarrow> (case try_from config of
          Inl e \<Rightarrow> Inl e
        | Inr api \<Rightarrow> (case node_env of
            None \<Rightarrow> Inl ''NODE_NAME is unset; the DaemonSet must expose it via the downward API''
          | Some node_name \<Rightarrow>
              Inr \<lparr>kc_pods = spawn api (field_selector node_name), kc_node_name = node_name\<rparr>)))"

definition cgroup_path :: "u32 \<Rightarrow> string" where
  "cgroup_path pid = ''/proc/'' @ show_nat (unat pid) @ ''/cgroup''"

definition get_container_id_from_pid ::
  "(pattern \<Rightarrow> string \<Rightarrow> string option option) \<Rightarrow> file_reader \<Rightarrow> u32 \<Rightarrow> string + string option" where
  "get_container_id_from_pid captures read_file pid =
     (case read_file (cgroup_path pid) of
        Inl (NotFound_Error e) \<Rightarrow> Inr None
      | Inl (Other_Error e) \<Rightarrow> Inl (''could not read '' @ cgroup_path pid @
          '' (is hostPID set and /proc mounted from the host?)'')
      | Inr content \<Rightarrow>
          (case extract_container_id captures content of
             Some container_id \<Rightarrow> Inr (Some container_id)
           | None \<Rightarrow> Inr None))"

definition get_container_info ::
  "'s store_ops \<Rightarrow> (pattern \<Rightarrow> string \<Rightarrow> string option option) \<Rightarrow> file_reader
     \<Rightarrow> 's kubernetes_client \<Rightarrow> u32 \<Rightarrow> string + container_identity option" where
  "get_container_info R captures read_file client pid =
     (case get_container_id_from_pid captures read_file pid of
        Inl e \<Rightarrow> Inl e
      | Inr (Some container_id) \<Rightarrow> identity_of R (kc_pods client) container_id
      | Inr None \<Rightarrow> Inr None)"

definition resolve ::
  "'s store_ops \<Rightarrow> (pattern \<Rightarrow> string \<Rightarrow> string option option) \<Rightarrow> file_reader
     \<Rightarrow> 's kubernetes_client \<Rightarrow> u32 \<Rightarrow> resolution_outcome" where
  "resolve R captures read_file client pid =
     (case get_container_info R captures read_file client pid of
        Inr (Some identity) \<Rightarrow> Found identity
      | Inr None \<Rightarrow> NotFound
      | Inl e \<Rightarrow> Failed e)"

section \<open>Outcomes\<close>

text \<open>The id in the victim's cgroup file, if it can be read and has one.\<close>

definition cgroup_id ::
  "(pattern \<Rightarrow> string \<Rightarrow> string option option) \<Rightarrow> file_reader \<Rightarrow> u32 \<Rightarrow> string option" where
  "cgroup_id captures read_file pid =
     (case read_file (cgroup_path pid) of Inl e \<Rightarrow> None | Inr content \<Rightarrow> extract_container_id captures content)"

lemma resolve_eq:
  "resolve R captures read_file client pid =
     (case read_file (cgroup_path pid) of
        Inl (NotFound_Error e) \<Rightarrow> NotFound
      | Inl (Other_Error e) \<Rightarrow> Failed (''could not read '' @ cgroup_path pid @
          '' (is hostPID set and /proc mounted from the host?)'')
      | Inr content \<Rightarrow> (case extract_container_id captures content of
          None \<Rightarrow> NotFound
        | Some cid \<Rightarrow> (case identity_of R (kc_pods client) cid of
            Inr (Some i) \<Rightarrow> Found i | Inr None \<Rightarrow> NotFound | Inl e \<Rightarrow> Failed e)))"
  by (auto simp: resolve_def get_container_info_def get_container_id_from_pid_def
      split: sum.split option.split io_error.split)

text \<open>
  (C40) The three outcomes stay apart: a resolution is \<open>NotFound\<close> exactly when the process is
  gone, or its cgroup has no container id, or the synced cache has no container with that id;
  it is \<open>Failed\<close> exactly when the cgroup cannot be read for another reason, or the lookup of
  the id it has is an error (the cache is not in sync); it is \<open>Found\<close> otherwise.
\<close>

theorem resolve_outcomes:
  "(resolve R captures read_file client pid = NotFound \<longleftrightarrow>
      (\<exists>e. read_file (cgroup_path pid) = Inl (NotFound_Error e))
      \<or> (\<exists>content. read_file (cgroup_path pid) = Inr content \<and> extract_container_id captures content = None)
      \<or> (\<exists>cid. cgroup_id captures read_file pid = Some cid \<and> identity_of R (kc_pods client) cid = Inr None))
   \<and> ((\<exists>e. resolve R captures read_file client pid = Failed e) \<longleftrightarrow>
      (\<exists>e. read_file (cgroup_path pid) = Inl (Other_Error e))
      \<or> (\<exists>cid e. cgroup_id captures read_file pid = Some cid \<and> identity_of R (kc_pods client) cid = Inl e))
   \<and> (\<forall>i. resolve R captures read_file client pid = Found i \<longleftrightarrow>
      (\<exists>cid. cgroup_id captures read_file pid = Some cid \<and> identity_of R (kc_pods client) cid = Inr (Some i)))"
  unfolding resolve_eq cgroup_id_def
  by (auto split: sum.split option.split io_error.split)

text \<open>
  (C12) An identity that resolution reports is the victim's: the process's cgroup file holds a
  64-digit id, delimited on both sides, and a pod that the API server says exists on the node
  has a container status with that id, running or replaced, from which every field is taken.
\<close>

theorem found_identity_is_the_victims:
  assumes "regex_engine captures" "reflector R stored listing" "fresh_store R stored listing s0"
    and "kc_pods client = fst (cache_task (so_apply R) gone items (s0, w0))"
    and "resolve R captures read_file client pid = Found i"
  shows "\<exists>pre d w post p. read_file (cgroup_path pid) = Inr (pre @ d # w @ post)
          \<and> dash_or_slash d \<and> full_id w post
          \<and> p \<in> ran (nv_pods (node_view_of items))
          \<and> (\<exists>st \<in> set (statuses_of p). \<exists>full.
                (running_container_id st = Some full \<or> terminated_container_id st = Some full)
                \<and> sublist w full \<and> i = identity_in p st full)"
proof -
  have m: "reflector.mirrors R stored listing (kc_pods client) (node_view_of items)"
    using cache_mirrors [OF assms(2) assms(2,3), of gone items w0] assms(4) by simp
  obtain content w where c: "read_file (cgroup_path pid) = Inr content"
    "extract_container_id captures content = Some w" "identity_of R (kc_pods client) w = Inr (Some i)"
    using assms(5) unfolding resolve_eq
    by (auto split: sum.splits option.splits io_error.splits)
  have "identity_from_pods (so_state R (kc_pods client)) w = Some i"
    using c(3) by (auto simp: identity_of_def split: sum.splits)
  then obtain p where p: "p \<in> set (so_state R (kc_pods client))"
    "i \<in> set (candidates running_container_id w p) \<or> i \<in> set (candidates terminated_container_id w p)"
    using match_container_in by (fastforce simp: identity_from_pods_def split: option.splits)
  then obtain p' where p': "p' \<in> ran (nv_pods (node_view_of items))"
    "i \<in> set (candidates running_container_id w p') \<or> i \<in> set (candidates terminated_container_id w p')"
    unfolding reflector.mirrored_pods [OF assms(2) m] by auto
  from regex_engine.extract_sound [OF assms(1) c(2)] obtain pre d post
    where "content = pre @ d # w @ post" "dash_or_slash d" "full_id w post"
    unfolding occurs_iff by blast
  with c(1) p' show ?thesis unfolding in_candidates by blast
qed

text \<open>A node with one pod, for the witness.\<close>

definition sample_id :: string where
  "sample_id = replicate 64 CHR ''a''"

definition sample_victim_pod :: pod where
  "sample_victim_pod =
     sample_pod ''api-7d9'' [restarted_status ''containerd://new'' (''containerd://'' @ sample_id)]"

definition sample_items :: "watch_item list" where
  "sample_items = [Item Init, Item (InitApply sample_victim_pod), Item InitDone]"

definition sample_client :: "assoc_store kubernetes_client" where
  "sample_client =
     \<lparr>kc_pods = fst (cache_task (so_apply assoc_reflector) (\<lambda>ns name w. w) sample_items (assoc_store_new, ())),
      kc_node_name = ''node-1''\<rparr>"

definition sample_files :: file_reader where
  "sample_files path = (if path = cgroup_path 1234 then Inr (''0::/docker-'' @ sample_id) else Inl (NotFound_Error ''gone''))"

lemma sample_extract: "extract_container_id leftmost_first (''0::/docker-'' @ sample_id) = Some sample_id"
  by code_simp

lemma sample_store:
  "so_state assoc_reflector (kc_pods sample_client) = [prune_for_cache sample_victim_pod]"
  "so_latch assoc_reflector (kc_pods sample_client) = Latched"
  by (simp_all add: sample_client_def sample_items_def assoc_reflector_def assoc_store_new_def Let_def)

lemma sample_candidates: "candidates terminated_container_id sample_id sample_victim_pod \<noteq> []"
  by (simp add: candidates_def statuses_of_def sample_pod_def restarted_status_def match_status_def
      sample_victim_pod_def terminated_container_id_def names_container_iff map_filter_simps sublist_Cons_right)

lemma sample_lookup: "\<exists>i. identity_of assoc_reflector (kc_pods sample_client) sample_id = Inr (Some i)"
proof -
  have "match_container [prune_for_cache sample_victim_pod] sample_id terminated_container_id \<noteq> None"
    using sample_candidates unfolding match_container_None_iff by simp
  then have "\<exists>i. identity_from_pods (so_state assoc_reflector (kc_pods sample_client)) sample_id = Some i"
    unfolding sample_store identity_from_pods_def by (auto split: option.split)
  then show ?thesis by (auto simp: identity_of_def ensure_synced_def sample_store)
qed

lemma sample_resolve: "\<exists>i. resolve assoc_reflector leftmost_first sample_files sample_client 1234 = Found i"
  using sample_lookup by (auto simp: resolve_eq sample_files_def sample_extract [simplified])

theorem found_identity_is_the_victims_witness:
  "\<exists>pre d w post. ''0::/docker-'' @ sample_id = pre @ d # w @ post \<and> dash_or_slash d \<and> full_id w post"
proof -
  obtain i where "resolve assoc_reflector leftmost_first sample_files sample_client 1234 = Found i"
    using sample_resolve ..
  from found_identity_is_the_victims [OF perl.regex_engine_axioms ar.reflector_axioms fresh_assoc_store _ this,
      of "\<lambda>ns name w. w" sample_items "()"]
  have "\<exists>pre d w post. sample_files (cgroup_path 1234) = Inr (pre @ d # w @ post)
      \<and> dash_or_slash d \<and> full_id w post"
    by (auto simp: sample_client_def)
  then show ?thesis by (auto simp: sample_files_def)
qed

end
