(* ===== verification/Eviction.thy ===== *)
theory Eviction
  imports Collector_Laws
begin

text \<open>
  What the metrics collector promises, over any implementation of the metric families that
  obeys their laws: the per-container series and the bookkeeping agree in every state the
  operations can reach, a sweep removes exactly the expired series, the shared memory gauge
  goes with the last container instance that writes it and holds the peak, deletions wait
  out their grace, and the drop counter follows the source's total.
\<close>

section \<open>The invariant\<close>

abbreviation tracked :: "'v collector \<Rightarrow> series_key set" where
  "tracked c \<equiv> hm_keys (last_seen c)"

definition series_tracked :: "'v prom \<Rightarrow> 'v collector \<Rightarrow> bool" where
  "series_tracked P c \<longleftrightarrow>
     (\<forall>ls. pm_get P (oom_kills_total c) ls \<noteq> None \<longleftrightarrow> ls \<in> labels ` tracked c)
     \<and> (\<forall>ls. pm_get P (oom_last_timestamp c) ls \<noteq> None \<longleftrightarrow> ls \<in> labels ` tracked c)
     \<and> (\<forall>ls. pm_get P (oom_memory_usage_bytes c) ls \<noteq> None
              \<longleftrightarrow> (\<exists>k \<in> tracked c. is_memory_series_of k ls))"

definition collector_ok :: "'v prom \<Rightarrow> ('v \<Rightarrow> nat) \<Rightarrow> 'v collector \<Rightarrow> bool" where
  "collector_ok P arity c \<longleftrightarrow>
     arities_ok arity c \<and> hm_ok (last_seen c) \<and> hm_ok (deleted_after c) \<and> series_tracked P c"

lemma collector_okD:
  "collector_ok P arity c \<Longrightarrow> arities_ok arity c"
  "collector_ok P arity c \<Longrightarrow> hm_ok (last_seen c)"
  "collector_ok P arity c \<Longrightarrow> hm_ok (deleted_after c)"
  "collector_ok P arity c \<Longrightarrow> series_tracked P c"
  by (simp_all add: collector_ok_def)

text \<open>The states that the operations can reach from \<open>MetricsCollector::new\<close>.\<close>

inductive collector_reachable :: "'v prom \<Rightarrow> 'v collector \<Rightarrow> bool" for P where
  reach_new: "collector_reachable P (collector_new P)"
| reach_event: "collector_reachable P c \<Longrightarrow> collector_reachable P (record_oom_event P ev c)"
| reach_outcome: "collector_reachable P c \<Longrightarrow>
    collector_reachable P (record_resolution_outcome P node out c)"
| reach_dropped: "collector_reachable P c \<Longrightarrow>
    collector_reachable P (record_dropped_total P node t c)"
| reach_deleted: "collector_reachable P c \<Longrightarrow>
    collector_reachable P (note_pod_deleted ns pod now c)"
| reach_evict: "collector_reachable P c \<Longrightarrow>
    collector_reachable P (snd (evict_stale P now ttl c))"

lemmas series_trackedD =
  series_tracked_def [THEN iffD1, THEN conjunct1, THEN spec]
  series_tracked_def [THEN iffD1, THEN conjunct2, THEN conjunct1, THEN spec]
  series_tracked_def [THEN iffD1, THEN conjunct2, THEN conjunct2, THEN spec]

lemma present_after_removal:
  "x' = (if e \<in> S then None else x) \<Longrightarrow> (x \<noteq> None \<longleftrightarrow> e \<in> T) \<Longrightarrow> L = T - S \<Longrightarrow>
    x' \<noteq> None \<longleftrightarrow> e \<in> L"
  by simp

lemma hm_ok_live_seen: "hm_ok (last_seen c) \<Longrightarrow> hm_ok (live_seen now ttl c)"
  by (simp add: live_seen_def)

context prom_vec
begin

lemma ok_new: "collector_ok P arity (collector_new P)"
  by (simp add: collector_ok_def series_tracked_def collector_new_facts)

lemma ok_record_oom_event:
  assumes "collector_ok P arity c"
  shows "collector_ok P arity (record_oom_event P ev c)"
proof -
  from assms have a: "ok_arities c" and h: "hm_ok (last_seen c)" "hm_ok (deleted_after c)"
    and t: "series_tracked P c" by (simp_all add: collector_ok_def)
  have "series_tracked P (record_oom_event P ev c)"
    using series_trackedD [OF t]
    by (auto simp: series_tracked_def record_oom_event_families [OF a] record_oom_event_other
        simp del: not_None_eq)
  with a h show ?thesis
    by (simp add: collector_ok_def collector_simps)
qed

lemma ok_record_resolution_outcome:
  "collector_ok P arity c \<Longrightarrow> collector_ok P arity (record_resolution_outcome P node out c)"
  by (simp add: collector_ok_def series_tracked_def collector_simps)

lemma ok_record_dropped_total:
  "collector_ok P arity c \<Longrightarrow> collector_ok P arity (record_dropped_total P node t c)"
  by (simp add: collector_ok_def series_tracked_def collector_simps)

lemma ok_note_pod_deleted:
  "collector_ok P arity c \<Longrightarrow> collector_ok P arity (note_pod_deleted ns pod now c)"
  by (simp add: collector_ok_def series_tracked_def collector_simps)

lemma memory_after_sweep:
  assumes ok: "collector_ok P arity c"
  shows "pm_get P (oom_memory_usage_bytes (snd (evict_stale P now ttl c))) ls
           = (if \<exists>k \<in> hm_keys (live_seen now ttl c). is_memory_series_of k ls
              then pm_get P (oom_memory_usage_bytes c) ls else None)"
proof -
  let ?live = "live_seen now ttl c" and ?stale = "stale_keys now ttl c"
  from ok have a: "ok_arities c" and h: "hm_ok (last_seen c)" and t: "series_tracked P c"
    by (simp_all add: collector_ok_def)
  note mem = evict_stale_families(3) [OF a, of now ttl ls]
  show ?thesis
  proof (cases "\<exists>k \<in> hm_keys ?live. is_memory_series_of k ls")
    case True
    then obtain l where l: "l \<in> hm_keys ?live" "is_memory_series_of l ls" by blast
    have "\<not> (orphaned_by ?live k \<and> is_memory_series_of k ls)" for k
      using l is_memory_series_of_both [of l ls k] by (auto simp: orphaned_by_iff)
    with True mem show ?thesis by simp
  next
    case False
    show ?thesis
    proof (cases "\<exists>k \<in> set ?stale. is_memory_series_of k ls")
      case True
      then obtain k where k: "k \<in> set ?stale" "is_memory_series_of k ls" by blast
      with False have "orphaned_by ?live k"
        by (auto simp: orphaned_by_iff dest: is_memory_series_of_shares)
      with k mem False show ?thesis by auto
    next
      case nostale: False
      with False stale_or_live [OF h, of _ now ttl]
      have "\<not> (\<exists>k \<in> tracked c. is_memory_series_of k ls)" by blast
      with series_trackedD(3) [OF t, of ls] have "pm_get P (oom_memory_usage_bytes c) ls = None"
        by simp
      with mem False show ?thesis by simp
    qed
  qed
qed

lemma ok_evict_stale:
  assumes ok: "collector_ok P arity c"
  shows "collector_ok P arity (snd (evict_stale P now ttl c))"
proof -
  let ?live = "hm_keys (live_seen now ttl c)" and ?stale = "set (stale_keys now ttl c)"
  from ok have a: "ok_arities c" and h: "hm_ok (last_seen c)" "hm_ok (deleted_after c)"
    and t: "series_tracked P c" by (simp_all add: collector_ok_def)
  have split: "k \<in> tracked c \<longleftrightarrow> k \<in> ?stale \<or> k \<in> ?live" "k \<in> ?stale \<Longrightarrow> k \<notin> ?live" for k
    using stale_or_live [OF h(1)] stale_not_live [OF h(1)] by blast+
  from split have live: "?live = tracked c - ?stale" by blast
  have "labels ` ?live = labels ` tracked c - labels ` ?stale"
    unfolding live by (rule image_set_diff) (simp add: inj_def)
  note gone = present_after_removal [OF _ _ this]
  have "pm_get P (oom_kills_total (snd (evict_stale P now ttl c))) ls \<noteq> None \<longleftrightarrow> ls \<in> labels ` ?live" for ls
    by (rule gone [OF evict_stale_families(1) [OF a] series_trackedD(1) [OF t]])
  moreover have "pm_get P (oom_last_timestamp (snd (evict_stale P now ttl c))) ls \<noteq> None \<longleftrightarrow> ls \<in> labels ` ?live" for ls
    by (rule gone [OF evict_stale_families(2) [OF a] series_trackedD(2) [OF t]])
  moreover have "pm_get P (oom_memory_usage_bytes (snd (evict_stale P now ttl c))) ls \<noteq> None
      \<longleftrightarrow> (\<exists>k \<in> ?live. is_memory_series_of k ls)" for ls
    using series_trackedD(3) [OF t, of ls] live unfolding memory_after_sweep [OF ok] by auto
  ultimately have "series_tracked P (snd (evict_stale P now ttl c))"
    unfolding series_tracked_def evict_stale_other by blast
  with a h show ?thesis
    by (simp add: collector_ok_def collector_simps hm_ok_live_seen)
qed

lemma reachable_ok: "collector_reachable P c \<Longrightarrow> collector_ok P arity c"
  by (induction rule: collector_reachable.induct)
     (simp_all add: ok_new ok_record_oom_event ok_record_resolution_outcome ok_record_dropped_total
       ok_note_pod_deleted ok_evict_stale)

end

text \<open>A sample run for the witnesses: one kill of container \<open>api\<close> in pod \<open>prod/api-7d9\<close>.\<close>

definition sample_raw :: oom_kill_event where
  "sample_raw =
     \<lparr>ev_pid = 1234, ev_comm = replicate 16 0, ev_total_vm = 100, ev_anon_rss = 50,
      ev_file_rss = 20, ev_shmem_rss = 5, ev_uid = 1000, ev_pgtables = 8, ev_oom_score_adj = 0\<rparr>"

definition sample_identity :: "string \<Rightarrow> container_identity" where
  "sample_identity cid =
     \<lparr>ci_namespace = ''prod'', ci_pod_name = ''api-7d9'', ci_container_name = ''api'',
      ci_container_id = cid, ci_image_id = ''repo@sha256:def456''\<rparr>"

definition sample_event :: "string \<Rightarrow> u64 \<Rightarrow> enriched_oom_event" where
  "sample_event cid t = enrich sample_raw (Some ''node-1'') (Some (sample_identity cid)) t"

definition sample_key :: "string \<Rightarrow> series_key" where
  "sample_key cid =
     \<lparr>sk_node = ''node-1'', sk_namespace = ''prod'', sk_pod = ''api-7d9'', sk_container = ''api'',
      sk_container_id = cid, sk_image_id = ''repo@sha256:def456''\<rparr>"

definition sample_collector :: "family collector" where
  "sample_collector =
     record_oom_event assoc_prom (sample_event ''cid-1'' 1000) (collector_new assoc_prom)"

lemma event_key_sample [simp]: "event_key (sample_event cid t) = sample_key cid"
  by (simp add: event_key_def sample_event_def sample_identity_def sample_key_def or_unknown_def)

lemma en_timestamp_sample [simp]: "en_timestamp (sample_event cid t) = t"
  by (simp add: sample_event_def)

lemma en_raw_event_sample [simp]: "en_raw_event (sample_event cid t) = sample_raw"
  by (simp add: sample_event_def)

lemma sample_reachable: "collector_reachable assoc_prom sample_collector"
  by (simp add: sample_collector_def reach_event reach_new)

lemma sample_last_seen: "last_seen sample_collector = [(sample_key ''cid-1'', 1000)]"
  by (simp add: sample_collector_def collector_simps assoc.collector_new_facts hm_insert_def)

lemma sample_deleted_after: "deleted_after sample_collector = []"
  by (simp add: sample_collector_def collector_simps assoc.collector_new_facts)

lemmas sample_simps = sample_last_seen sample_deleted_after

text \<open>
  (C4) In every state the collector can reach, a kill counter and a last-kill timestamp exist
  for exactly the label sets in \<open>last_seen\<close>, and the four memory gauges exist exactly for the
  containers of which some instance is in \<open>last_seen\<close>. So no per-container series can
  outlive its bookkeeping and leak, and none is tracked that does not exist.
\<close>

theorem reachable_series_are_tracked:
  assumes "prom_vec P arity" "collector_reachable P c"
  shows "(\<forall>ls. pm_get P (oom_kills_total c) ls \<noteq> None \<longleftrightarrow> ls \<in> labels ` tracked c)
       \<and> (\<forall>ls. pm_get P (oom_last_timestamp c) ls \<noteq> None \<longleftrightarrow> ls \<in> labels ` tracked c)
       \<and> (\<forall>ls. pm_get P (oom_memory_usage_bytes c) ls \<noteq> None
                \<longleftrightarrow> (\<exists>k \<in> tracked c. is_memory_series_of k ls))"
  by (rule collector_okD(4) [unfolded series_tracked_def, OF prom_vec.reachable_ok [OF assms]])

theorem reachable_series_are_tracked_witness:
  "pm_get assoc_prom (oom_kills_total sample_collector) (labels (sample_key ''cid-1'')) \<noteq> None"
  using reachable_series_are_tracked [OF assoc.prom_vec_axioms sample_reachable] sample_last_seen
  by simp

section \<open>A sweep\<close>

text \<open>
  What makes a tracked series expire, in terms of the clock: its last kill is at least the TTL
  ago (a clock that stepped back counts as no time at all), or its pod was deleted and the
  deletion's grace has passed.
\<close>

definition expired :: "u64 \<Rightarrow> u64 \<Rightarrow> 'v collector \<Rightarrow> series_key \<Rightarrow> bool" where
  "expired now ttl c k =
     (case map_of (last_seen c) k of
        None \<Rightarrow> False
      | Some seen \<Rightarrow>
          unat ttl \<le> unat now - unat seen
          \<or> (case map_of (deleted_after c) (sk_namespace k, sk_pod k) of
               None \<Rightarrow> False | Some removable_at \<Rightarrow> removable_at \<le> now))"

lemma in_due_pods:
  "hm_ok (deleted_after c) \<Longrightarrow>
    p \<in> set (due_pods now c) \<longleftrightarrow> (\<exists>at. map_of (deleted_after c) p = Some at \<and> at \<le> now)"
  by (force simp: due_pods_def hm_map_of_iff not_less)

lemma is_stale_expired:
  assumes "hm_ok (deleted_after c)" "map_of (last_seen c) k = Some seen"
  shows "is_stale now ttl (due_pods now c) k seen \<longleftrightarrow> expired now ttl c k"
proof -
  have "list_ex (\<lambda>(namespace, pod). sk_namespace k = namespace \<and> sk_pod k = pod) (due_pods now c)
      \<longleftrightarrow> (sk_namespace k, sk_pod k) \<in> set (due_pods now c)"
    by (auto simp: list_ex_iff)
  with assms show ?thesis
    by (auto simp: is_stale_def expired_def in_due_pods saturating_sub_ge_iff split: option.splits)
qed

lemma stale_keys_expired:
  assumes "hm_ok (last_seen c)" "hm_ok (deleted_after c)"
  shows "set (stale_keys now ttl c) = {k \<in> tracked c. expired now ttl c k}"
  using is_stale_expired [OF assms(2)] assms(1)
  by (force simp: stale_keys_def hm_map_of_iff)

lemma map_of_live_seen:
  assumes "hm_ok (last_seen c)" "hm_ok (deleted_after c)"
  shows "map_of (live_seen now ttl c) k = (if expired now ttl c k then None else map_of (last_seen c) k)"
  using is_stale_expired [OF assms(2)]
  by (auto simp: live_seen_def map_of_hm_retain [OF assms(1)] split: option.split)

lemma expired_tracked: "expired now ttl c k \<Longrightarrow> k \<in> tracked c"
  by (auto simp: expired_def split: option.splits dest: map_of_SomeD intro: rev_image_eqI)

context prom_vec
begin

lemma stale_keys_of:
  assumes "collector_ok P arity c"
  shows "set (stale_keys now ttl c) = {k \<in> tracked c. expired now ttl c k}"
    and "labels k \<in> labels ` set (stale_keys now ttl c) \<longleftrightarrow> expired now ttl c k"
    and "length (stale_keys now ttl c) = card {k \<in> tracked c. expired now ttl c k}"
proof -
  show *: "set (stale_keys now ttl c) = {k \<in> tracked c. expired now ttl c k}"
    using assms by (intro stale_keys_expired collector_okD)
  show "labels k \<in> labels ` set (stale_keys now ttl c) \<longleftrightarrow> expired now ttl c k"
    using expired_tracked [of now ttl c k] unfolding * by (auto simp: inj_image_mem_iff inj_def)
  show "length (stale_keys now ttl c) = card {k \<in> tracked c. expired now ttl c k}"
    using distinct_card [OF distinct_stale_keys [OF collector_okD(2) [OF assms]]] * by metis
qed

lemma sweep_result:
  assumes ok: "collector_ok P arity c"
  shows "fst (evict_stale P now ttl c) = card {k \<in> tracked c. expired now ttl c k}"
    and "map_of (last_seen (snd (evict_stale P now ttl c))) k
           = (if expired now ttl c k then None else map_of (last_seen c) k)"
    and "pm_get P (oom_kills_total (snd (evict_stale P now ttl c))) (labels k)
           = (if expired now ttl c k then None else pm_get P (oom_kills_total c) (labels k))"
    and "pm_get P (oom_last_timestamp (snd (evict_stale P now ttl c))) (labels k)
           = (if expired now ttl c k then None else pm_get P (oom_last_timestamp c) (labels k))"
  using map_of_live_seen [OF collector_okD(2) [OF ok] collector_okD(3) [OF ok]]
  unfolding evict_stale_other evict_stale_families [OF collector_okD(1) [OF ok]] stale_keys_of(2,3) [OF ok]
  by auto

end

text \<open>
  (C5) A sweep removes exactly the expired series and reports how many: their counter, their
  timestamp and their bookkeeping go, every other series keeps its values and its age.
\<close>

theorem sweep_removes_exactly_expired:
  assumes "prom_vec P arity" "collector_reachable P c" "evict_stale P now ttl c = (n, c')"
  shows "n = card {k \<in> tracked c. expired now ttl c k}
       \<and> (\<forall>k. map_of (last_seen c') k = (if expired now ttl c k then None else map_of (last_seen c) k))
       \<and> (\<forall>k. pm_get P (oom_kills_total c') (labels k)
                = (if expired now ttl c k then None else pm_get P (oom_kills_total c) (labels k)))
       \<and> (\<forall>k. pm_get P (oom_last_timestamp c') (labels k)
                = (if expired now ttl c k then None else pm_get P (oom_last_timestamp c) (labels k)))"
  using prom_vec.sweep_result [OF assms(1) prom_vec.reachable_ok [OF assms(1,2)], of now ttl] assms(3)
  by simp

theorem sweep_removes_exactly_expired_witness:
  "fst (evict_stale assoc_prom 3000 1800 sample_collector) = 1"
proof -
  obtain n c' where e: "evict_stale assoc_prom 3000 1800 sample_collector = (n, c')" by (cases "evict_stale assoc_prom 3000 1800 sample_collector")
  have "{k \<in> tracked sample_collector. expired 3000 1800 sample_collector k} = {sample_key ''cid-1''}"
    by (auto simp: sample_simps expired_def)
  with sweep_removes_exactly_expired [OF assoc.prom_vec_axioms sample_reachable e] e show ?thesis by simp
qed

section \<open>The shared memory gauge\<close>

text \<open>
  (C11) The memory gauge of a container survives a sweep, with its value, exactly as long as
  some instance of that container (any restart) is still tracked after the sweep.
\<close>

theorem memory_gauge_lives_with_last_instance:
  assumes "prom_vec P arity" "collector_reachable P c" "evict_stale P now ttl c = (n, c')"
    and "k \<in> tracked c" "memory_type \<in> set MEMORY_TYPES"
  shows "pm_get P (oom_memory_usage_bytes c) (memory_labels k memory_type) \<noteq> None
       \<and> pm_get P (oom_memory_usage_bytes c') (memory_labels k memory_type)
           = (if \<exists>l \<in> tracked c'. shares_memory_series_with l k
              then pm_get P (oom_memory_usage_bytes c) (memory_labels k memory_type) else None)"
proof -
  note ok = prom_vec.reachable_ok [OF assms(1,2)]
  from assms(3) have c': "c' = snd (evict_stale P now ttl c)" by simp
  have "\<exists>k' \<in> tracked c. is_memory_series_of k' (memory_labels k memory_type)"
    using assms(4,5) by (intro bexI [of _ k]) (simp_all add: is_memory_series_of_memory_labels)
  then have "pm_get P (oom_memory_usage_bytes c) (memory_labels k memory_type) \<noteq> None"
    using series_trackedD(3) [OF collector_okD(4) [OF ok]] by blast
  then show ?thesis
    using assms(5)
    by (auto simp: c' prom_vec.memory_after_sweep [OF assms(1) ok] evict_stale_other
        is_memory_series_of_memory_labels)
qed

text \<open>Two restarts of one container, of which the first goes stale.\<close>

definition restarted_collector :: "family collector" where
  "restarted_collector = record_oom_event assoc_prom (sample_event ''cid-2'' 2800) sample_collector"

lemma restarted_reachable: "collector_reachable assoc_prom restarted_collector"
  by (simp add: restarted_collector_def reach_event sample_reachable)

lemma restarted_last_seen:
  "last_seen restarted_collector = [(sample_key ''cid-1'', 1000), (sample_key ''cid-2'', 2800)]"
  by (simp add: restarted_collector_def collector_simps sample_last_seen hm_insert_def sample_key_def)

lemma restarted_deleted_after: "deleted_after restarted_collector = []"
  by (simp add: restarted_collector_def collector_simps sample_deleted_after)

lemma restarted_live_seen:
  "live_seen 2800 1800 restarted_collector = [(sample_key ''cid-2'', 2800)]"
  by (simp add: live_seen_def hm_retain_def restarted_last_seen due_pods_def restarted_deleted_after
      is_stale_def saturating_sub_def)

theorem memory_gauge_lives_with_last_instance_witness:
  "pm_get assoc_prom (oom_memory_usage_bytes (snd (evict_stale assoc_prom 2800 1800 restarted_collector)))
     (memory_labels (sample_key ''cid-1'') ''anon_rss'') \<noteq> None"
proof -
  obtain n c' where e: "evict_stale assoc_prom 2800 1800 restarted_collector = (n, c')"
    by (cases "evict_stale assoc_prom 2800 1800 restarted_collector")
  have k: "sample_key ''cid-1'' \<in> tracked restarted_collector" by (simp add: restarted_last_seen)
  have "last_seen c' = [(sample_key ''cid-2'', 2800)]"
    using evict_stale_other(7) [of assoc_prom 2800 1800 restarted_collector] e
    by (simp add: restarted_live_seen)
  then show ?thesis
    using memory_gauge_lives_with_last_instance
      [OF assoc.prom_vec_axioms restarted_reachable e k, of "''anon_rss''"] e
    by (simp add: MEMORY_TYPES_def shares_memory_series_with_def sample_key_def)
qed

text \<open>
  The node-scoped families: a sweep adds one to \<open>oom_series_evicted_total\<close> of a node for
  each of its expired series (and creates no such series for a node without one), and leaves
  the kill count per node, the resolution failures and the drop count alone.
\<close>

lemma sweep_counts_evictions_per_node:
  assumes "prom_vec P arity" "collector_reachable P c" "evict_stale P now ttl c = (n, c')"
  shows "pm_get P (oom_series_evicted_total c') [node]
           = bump (card {k \<in> tracked c. expired now ttl c k \<and> sk_node k = node})
               (pm_get P (oom_series_evicted_total c) [node])
       \<and> oom_kills_per_node_total c' = oom_kills_per_node_total c
       \<and> oom_resolution_failures_total c' = oom_resolution_failures_total c
       \<and> oom_events_dropped_total c' = oom_events_dropped_total c"
proof -
  note ok = prom_vec.reachable_ok [OF assms(1,2)]
  have "length (filter (\<lambda>k. [node] = [sk_node k]) (stale_keys now ttl c))
      = card (set (filter (\<lambda>k. [node] = [sk_node k]) (stale_keys now ttl c)))"
    by (rule distinct_card [symmetric]) (simp add: distinct_stale_keys collector_okD(2) [OF ok])
  also have "set (filter (\<lambda>k. [node] = [sk_node k]) (stale_keys now ttl c))
      = {k \<in> tracked c. expired now ttl c k \<and> sk_node k = node}"
    using stale_keys_expired [OF collector_okD(2) [OF ok] collector_okD(3) [OF ok]] by auto
  finally show ?thesis
    using assms(3) prom_vec.evict_stale_families(4) [OF assms(1) collector_okD(1) [OF ok], of now ttl "[node]"]
      evict_stale_other [of P now ttl c]
    by simp
qed

text \<open>
  A second sweep at the same time finds nothing: nothing that a sweep leaves is expired,
  and no due deletion is left behind.
\<close>

lemma second_sweep_is_noop:
  assumes "prom_vec P arity" "collector_reachable P c" "evict_stale P now ttl c = (n, c')"
  shows "evict_stale P now ttl c' = (0, c')"
proof -
  note ok = prom_vec.reachable_ok [OF assms(1,2)]
  from assms(3) have c': "c' = snd (evict_stale P now ttl c)" by simp
  note h = collector_okD(2) [OF ok] collector_okD(3) [OF ok]
  have da: "deleted_after c' = hm_retain (\<lambda>pod at. now < at) (deleted_after c)"
    and ls: "last_seen c' = live_seen now ttl c" by (simp_all add: c' evict_stale_other)
  have due: "due_pods now c' = []" by (auto simp: due_pods_def da hm_retain_def filter_empty_conv)
  have fresh: "\<not> is_stale now ttl (due_pods now c') key seen" if "(key, seen) \<in> set (last_seen c')" for key seen
    using that by (auto simp: due ls live_seen_def set_hm_retain is_stale_def)
  have "stale_keys now ttl c' = []" using fresh by (auto simp: stale_keys_def filter_empty_conv)
  moreover have "live_seen now ttl c' = last_seen c'"
    using fresh by (auto simp: live_seen_def hm_retain_def filter_id_conv)
  moreover have "hm_retain (\<lambda>pod at. now < at) (deleted_after c') = deleted_after c'"
    by (auto simp: da hm_retain_def intro!: filter_True)
  ultimately show ?thesis by (simp add: evict_stale_eq)
qed

section \<open>Deleted pods\<close>

lemma unat_grace: "unat t + 120 < 2 ^ 64 \<Longrightarrow> unat (saturating_add t DELETED_POD_GRACE_SECONDS) = unat t + 120"
  by (simp add: unat_saturating_add DELETED_POD_GRACE_SECONDS_def)

text \<open>The calls that other tasks may make between a deletion and the sweep that acts on it.\<close>

datatype collector_call =
    Record_Event enriched_oom_event
  | Record_Outcome string resolution_outcome
  | Record_Dropped string u64
  | Note_Deleted string string u64
  | Evict_Stale u64 u64

fun apply_call :: "'v prom \<Rightarrow> collector_call \<Rightarrow> 'v collector \<Rightarrow> 'v collector" where
  "apply_call P (Record_Event event) c = record_oom_event P event c"
| "apply_call P (Record_Outcome node outcome) c = record_resolution_outcome P node outcome c"
| "apply_call P (Record_Dropped node tot) c = record_dropped_total P node tot c"
| "apply_call P (Note_Deleted namespace pod now) c = note_pod_deleted namespace pod now c"
| "apply_call P (Evict_Stale now ttl) c = snd (evict_stale P now ttl c)"

text \<open>
  Any call at all, before the deletion at \<open>t\<close> falls due: sweeps only up to then, and no later
  report of the same pod's deletion, which would start its grace anew.
\<close>

fun before_due :: "string \<Rightarrow> string \<Rightarrow> u64 \<Rightarrow> collector_call \<Rightarrow> bool" where
  "before_due ns pod t (Evict_Stale now ttl) \<longleftrightarrow> unat now < unat t + 120"
| "before_due ns pod t (Note_Deleted ns' pod' now) \<longleftrightarrow> (ns', pod') \<noteq> (ns, pod)"
| "before_due ns pod t _ \<longleftrightarrow> True"

lemma apply_call_reachable: "collector_reachable P c \<Longrightarrow> collector_reachable P (apply_call P call c)"
  by (cases call) (simp_all add: collector_reachable.intros)

lemma due_kept:
  assumes "prom_vec P arity" "unat t + 120 < 2 ^ 64"
  shows "list_all (before_due ns pod t) calls \<Longrightarrow> collector_reachable P c \<Longrightarrow>
    map_of (deleted_after c) (ns, pod) = Some (saturating_add t DELETED_POD_GRACE_SECONDS) \<Longrightarrow>
    collector_reachable P (fold (apply_call P) calls c)
    \<and> map_of (deleted_after (fold (apply_call P) calls c)) (ns, pod) = Some (saturating_add t DELETED_POD_GRACE_SECONDS)"
proof (induction calls arbitrary: c)
  case Nil
  then show ?case by simp
next
  case (Cons call calls)
  have "map_of (deleted_after (apply_call P call c)) (ns, pod) = Some (saturating_add t DELETED_POD_GRACE_SECONDS)"
  proof (cases call)
    case (Evict_Stale now ttl)
    have "hm_ok (deleted_after c)" by (rule collector_okD(3) [OF prom_vec.reachable_ok [OF assms(1) Cons.prems(2)]])
    with Evict_Stale Cons.prems(1,3) show ?thesis
      by (simp add: evict_stale_other map_of_hm_retain word_less_nat_alt unat_grace [OF assms(2)])
  qed (use Cons.prems in \<open>auto simp: collector_simps note_pod_deleted_other\<close>)
  with Cons apply_call_reachable [OF Cons.prems(2)] show ?case by simp
qed

lemma expired_due:
  assumes "map_of (last_seen c) k = Some seen" "unat t + 120 < 2 ^ 64"
    and "map_of (deleted_after c) (sk_namespace k, sk_pod k) = Some (saturating_add t DELETED_POD_GRACE_SECONDS)"
  shows "expired now ttl c k \<longleftrightarrow> unat t + 120 \<le> unat now \<or> unat ttl \<le> unat now - unat seen"
  using assms by (auto simp: expired_def word_le_nat_alt unat_grace)

lemma labels_image: "labels k \<in> labels ` K \<longleftrightarrow> k \<in> K"
  by (auto intro: image_eqI)

text \<open>A sweep at which a deletion is due leaves nothing of the pod in any family.\<close>

lemma sweep_clears_pod:
  assumes "prom_vec P arity" "collector_reachable P c" "evict_stale P now ttl c = (n, c')"
    and due: "map_of (deleted_after c) (ns, pod) = Some at" "at \<le> now"
    and k: "sk_namespace k = ns" "sk_pod k = pod"
  shows "k \<notin> tracked c' \<and> pm_get P (oom_kills_total c') (labels k) = None
    \<and> pm_get P (oom_last_timestamp c') (labels k) = None
    \<and> (\<forall>memory_type. pm_get P (oom_memory_usage_bytes c') (memory_labels k memory_type) = None)"
proof -
  note ok = prom_vec.reachable_ok [OF assms(1,2)]
  have c': "c' = snd (evict_stale P now ttl c)" using assms(3) by simp
  note t' = collector_okD(4) [OF prom_vec.reachable_ok [OF assms(1) reach_evict [OF assms(2)]], of now ttl, folded c']
  have gone: "l \<notin> tracked c'" if l: "sk_namespace l = ns" "sk_pod l = pod" for l
  proof -
    have "map_of (last_seen c') l = None"
      unfolding c' prom_vec.sweep_result(2) [OF assms(1) ok] using due l
      by (auto simp: expired_def split: option.split)
    then show ?thesis unfolding map_of_eq_None_iff .
  qed
  have "\<not> pm_get P (oom_kills_total c') (labels k) \<noteq> None" "\<not> pm_get P (oom_last_timestamp c') (labels k) \<noteq> None"
    unfolding series_trackedD(1,2) [OF t'] labels_image using gone [OF k] by blast+
  moreover have "\<not> pm_get P (oom_memory_usage_bytes c') (memory_labels k mt) \<noteq> None" for mt
  proof -
    have "sk_namespace l = ns \<and> sk_pod l = pod" if "is_memory_series_of l (memory_labels k mt)" for l
      using that k by (simp add: is_memory_series_of_memory_labels shares_memory_series_with_def)
    with gone show ?thesis unfolding series_trackedD(3) [OF t'] by blast
  qed
  ultimately show ?thesis using gone [OF k] by blast
qed

lemma hm_keys_map_of: "k \<in> hm_keys m \<longleftrightarrow> map_of m k \<noteq> None"
  by (simp only: map_of_eq_None_iff not_not)



text \<open>
  (C9) The premise that a deleted pod "cannot come back" fails for a pod that is recreated under
  the same name (a StatefulSet does that): a kill of the new pod, recorded between the deletion
  of the old one and the first sweep after its grace, is swept with it even when the kill is as
  fresh as can be; the kill counter and the timestamp are gone before the TTL has run at all.
\<close>

theorem recreated_pod_loses_fresh_kill:
  assumes "prom_vec P arity" "collector_reachable P c" "unat t + 120 \<le> unat now"
    and "en_timestamp ev = now"
    and "evict_stale P now ttl
           (record_oom_event P ev
             (note_pod_deleted (sk_namespace (event_key ev)) (sk_pod (event_key ev)) t c)) = (n, c')"
  shows "event_key ev \<notin> tracked c'
       \<and> pm_get P (oom_kills_total c') (labels (event_key ev)) = None
       \<and> pm_get P (oom_last_timestamp c') (labels (event_key ev)) = None"
proof -
  let ?c1 = "record_oom_event P ev
     (note_pod_deleted (sk_namespace (event_key ev)) (sk_pod (event_key ev)) t c)"
  have reach: "collector_reachable P ?c1" by (intro reach_event reach_deleted assms(2))
  note ok = prom_vec.reachable_ok [OF assms(1) reach]
  have "unat now < 2 ^ LENGTH(64)" by (rule unsigned_less)
  with assms(3) have "unat t + 120 < 2 ^ 64" by simp
  then have "expired now ttl ?c1 (event_key ev)"
    using assms(3)
    by (simp add: expired_def record_oom_event_other note_pod_deleted_other word_le_nat_alt unat_grace)
  then have "map_of (last_seen c') (event_key ev) = None
      \<and> pm_get P (oom_kills_total c') (labels (event_key ev)) = None
      \<and> pm_get P (oom_last_timestamp c') (labels (event_key ev)) = None"
    using prom_vec.sweep_result(2-4) [OF assms(1) ok, of now ttl "event_key ev"] assms(5) by simp
  then show ?thesis unfolding map_of_eq_None_iff .
qed

theorem recreated_pod_loses_fresh_kill_witness:
  "pm_get assoc_prom
     (oom_kills_total (snd (evict_stale assoc_prom 1120 1800
        (record_oom_event assoc_prom (sample_event ''cid-9'' 1120)
          (note_pod_deleted ''prod'' ''api-7d9'' 1000 sample_collector)))))
     (labels (sample_key ''cid-9'')) = None"
proof -
  let ?c = "record_oom_event assoc_prom (sample_event ''cid-9'' 1120)
     (note_pod_deleted (sk_namespace (event_key (sample_event ''cid-9'' 1120)))
        (sk_pod (event_key (sample_event ''cid-9'' 1120))) 1000 sample_collector)"
  obtain n c' where e: "evict_stale assoc_prom 1120 1800 ?c = (n, c')" by fastforce
  with recreated_pod_loses_fresh_kill [OF assoc.prom_vec_axioms sample_reachable _ _ e] show ?thesis
    by (simp add: sample_key_def)
qed

section \<open>The peak\<close>

context prom_vec
begin

lemma reachable_fold_events:
  "collector_reachable P c \<Longrightarrow> collector_reachable P (fold (record_oom_event P) evs c)"
  by (induction evs arbitrary: c) (simp_all add: reach_event)

lemma gauge_after_events:
  assumes "collector_reachable P c" "memory_type \<in> set MEMORY_TYPES"
  shows "value_or_0 (pm_get P (oom_memory_usage_bytes (fold (record_oom_event P) evs c)) (memory_labels k memory_type))
       = fold max (map (\<lambda>e. as_f64 (memory_figure (en_raw_event e) memory_type * 1024))
                     (filter (\<lambda>e. shares_memory_series_with (event_key e) k) evs))
           (value_or_0 (pm_get P (oom_memory_usage_bytes c) (memory_labels k memory_type)))"
  using assms(1)
proof (induction evs arbitrary: c)
  case Nil
  then show ?case by simp
next
  case (Cons e evs)
  note a = collector_okD(1) [OF reachable_ok [OF Cons.prems]]
  have "last (memory_labels k memory_type) = memory_type" by (simp add: memory_labels_def)
  with Cons.IH [OF reach_event [OF Cons.prems]] show ?case
    using assms(2)
    by (simp add: record_oom_event_families [OF a] is_memory_series_of_memory_labels max.commute)
qed

lemma gauge_present:
  assumes "collector_reachable P c" "memory_type \<in> set MEMORY_TYPES"
    and "e \<in> set evs" "shares_memory_series_with (event_key e) k"
  shows "pm_get P (oom_memory_usage_bytes (fold (record_oom_event P) evs c)) (memory_labels k memory_type) \<noteq> None"
proof -
  have "event_key e \<in> tracked (fold (record_oom_event P) evs c)"
    using assms(3)
  proof (induction evs arbitrary: c rule: rev_induct)
    case Nil
    then show ?case by simp
  next
    case (snoc x xs)
    then show ?case by (auto simp: record_oom_event_other simp del: image_iff)
  qed
  with assms(2,4) show ?thesis
    unfolding series_trackedD(3) [OF collector_okD(4) [OF reachable_ok [OF reachable_fold_events [OF assms(1)]]]]
    by (intro bexI [of _ "event_key e"]) (simp_all only: is_memory_series_of_memory_labels simp_thms)
qed

end

lemma fold_max_as_f64:
  "fold max (map (\<lambda>e. as_f64 (g e)) es) (as_f64 m) = as_f64 (fold max (map g es) (m :: u64))"
  by (induction es arbitrary: m) (simp_all add: as_f64_max [symmetric])

text \<open>
  (C10) While its series lives, the memory gauge of a container is the largest figure of all its
  kills, whichever instance they hit and in whichever order they came; each memory type on its
  own. (The figure is the kernel's kilobytes times 1024 in \<open>u64\<close>, as a double.)
\<close>

theorem memory_gauge_is_peak:
  assumes "prom_vec P arity" "collector_reachable P c" "memory_type \<in> set MEMORY_TYPES"
    and "pm_get P (oom_memory_usage_bytes c) (memory_labels k memory_type) = None"
    and "kills = filter (\<lambda>e. shares_memory_series_with (event_key e) k) evs" "kills \<noteq> []"
  shows "pm_get P (oom_memory_usage_bytes (fold (record_oom_event P) evs c)) (memory_labels k memory_type)
       = Some (as_f64 (Max (set (map (\<lambda>e. memory_figure (en_raw_event e) memory_type * 1024) kills))))"
proof -
  let ?g = "\<lambda>e. memory_figure (en_raw_event e) memory_type * 1024"
  let ?v = "pm_get P (oom_memory_usage_bytes (fold (record_oom_event P) evs c)) (memory_labels k memory_type)"
  from assms(5,6) obtain e where "e \<in> set evs" "shares_memory_series_with (event_key e) k"
    by (metis filter_empty_conv)
  then have "?v \<noteq> None" by (rule prom_vec.gauge_present [OF assms(1-3)])
  moreover have "value_or_0 ?v = as_f64 (fold max (map ?g kills) 0)"
    using prom_vec.gauge_after_events [OF assms(1-3), of evs k] fold_max_as_f64 [of ?g kills 0] assms(4,5)
    by simp
  moreover have "fold max (map ?g kills) 0 = Max (set (map ?g kills))"
    using assms(6) by (cases kills) (simp_all add: Max.set_eq_fold [symmetric] del: set_map)
  ultimately show ?thesis by auto
qed

theorem memory_gauge_is_peak_witness:
  "pm_get assoc_prom
     (oom_memory_usage_bytes (fold (record_oom_event assoc_prom)
        [sample_event ''cid-1'' 5, sample_event ''cid-2'' 6] (collector_new assoc_prom)))
     (memory_labels (sample_key ''cid-1'') ''anon_rss'') = Some (F64 51200)"
  using memory_gauge_is_peak [OF assoc.prom_vec_axioms reach_new, of "''anon_rss''" "sample_key ''cid-1''"
      _ "[sample_event ''cid-1'' 5, sample_event ''cid-2'' 6]"]
  by (simp add: MEMORY_TYPES_def assoc.collector_new_facts shares_memory_series_with_def sample_key_def
      memory_figure_def memory_values_def sample_raw_def as_f64_exact)

section \<open>Lost events\<close>

text \<open>The counter of a node after the source has reported these totals, one by one.\<close>

definition record_totals :: "'v prom \<Rightarrow> string \<Rightarrow> u64 list \<Rightarrow> 'v collector \<Rightarrow> 'v collector" where
  "record_totals P node totals c = fold (record_dropped_total P node) totals c"

lemma record_totals_simps [simp]:
  "record_totals P node [] c = c"
  "record_totals P node (t # ts) c = record_totals P node ts (record_dropped_total P node t c)"
  by (simp_all add: record_totals_def)

context prom_vec
begin

lemma reachable_record_totals:
  "collector_reachable P c \<Longrightarrow> collector_reachable P (record_totals P node ts c)"
  by (induction ts arbitrary: c) (simp_all add: reach_dropped)

lemma drop_counter_step:
  assumes "collector_reachable P c" "last_dropped_total c \<le> t" "unat t < 2 ^ 53"
    and "value_or_0 (pm_get P (oom_events_dropped_total c) [node]) = as_f64 (last_dropped_total c)"
  shows "value_or_0 (pm_get P (oom_events_dropped_total (record_dropped_total P node t c)) [node]) = as_f64 t"
proof -
  note a = collector_okD(1) [OF reachable_ok [OF assms(1)]]
  have nat: "unat (t - last_dropped_total c) = unat t - unat (last_dropped_total c)"
    "unat (last_dropped_total c) \<le> unat t"
    using assms(2) by (simp_all add: unat_sub word_le_nat_alt)
  then have "as_f64 (last_dropped_total c) + as_f64 (t - last_dropped_total c) = as_f64 t"
    using assms(3) by (simp add: as_f64_exact f64_plus_exact)
  moreover have "last_dropped_total c = t" if "\<not> last_dropped_total c < t"
    using that assms(2) by simp
  ultimately show ?thesis
    using assms(4) by (auto simp: record_dropped_total_families(1) [OF a])
qed

lemma drop_counter_follows:
  assumes "collector_reachable P c" "sorted (last_dropped_total c # totals)"
    and "\<forall>t \<in> set totals. unat t < 2 ^ 53"
    and "value_or_0 (pm_get P (oom_events_dropped_total c) [node]) = as_f64 (last_dropped_total c)"
  shows "value_or_0 (pm_get P (oom_events_dropped_total (record_totals P node totals c)) [node])
           = as_f64 (last (last_dropped_total c # totals))"
  using assms
proof (induction totals arbitrary: c)
  case Nil
  then show ?case by simp
next
  case (Cons t ts)
  let ?c = "record_dropped_total P node t c"
  have "value_or_0 (pm_get P (oom_events_dropped_total ?c) [node]) = as_f64 (last_dropped_total ?c)"
    using Cons.prems by (simp add: drop_counter_step record_dropped_total_other)
  with Cons.prems Cons.IH [of ?c] show ?case
    by (simp add: reach_dropped record_dropped_total_other)
qed

end

text \<open>
  While the source's total only grows, the drop counter is the last total reported: every
  lost event is counted once, however the reports batch them (exact up to \<open>2 ^ 53\<close>, where
  doubles stop being).
\<close>

lemma drop_counter_is_last_total:
  assumes "prom_vec P arity" "sorted totals" "\<forall>t \<in> set totals. unat t < 2 ^ 53"
  shows "value_or_0 (pm_get P (oom_events_dropped_total (record_totals P node totals (collector_new P))) [node])
           = F64 (unat (last (0 # totals)))"
proof -
  have "unat (last (0 # totals)) < 2 ^ 53" using assms(3) by auto
  moreover have "sorted ((0 :: u64) # totals)" using assms(2) by simp
  ultimately show ?thesis
    using prom_vec.drop_counter_follows [OF assms(1) reach_new, of totals node] assms(3)
    by (simp add: prom_vec.collector_new_facts [OF assms(1)] as_f64_exact del: last.simps)
qed

lemma drop_counter_is_last_total_witness:
  "value_or_0 (pm_get assoc_prom (oom_events_dropped_total
     (record_totals assoc_prom ''node-1'' [3, 3, 10] (collector_new assoc_prom))) [''node-1'']) = F64 10"
  using drop_counter_is_last_total [OF assoc.prom_vec_axioms, of "[3, 3, 10]" "''node-1''"] by simp

text \<open>
  (C30) A total that dips and recovers is counted twice: the dip is stored although it is not
  counted, so the way back up is. From a total \<open>t\<close> the readings \<open>low\<close>, \<open>t\<close> leave the source
  where it was and the counter \<open>t - low\<close> too high.
\<close>

theorem drop_total_dip_is_recounted:
  assumes "prom_vec P arity" "low < t" "unat t + unat t < 2 ^ 53"
  shows "value_or_0 (pm_get P (oom_events_dropped_total
           (record_totals P node [t, low, t] (collector_new P))) [node])
           = F64 (unat t + (unat t - unat low))"
proof -
  let ?c = "\<lambda>ts. record_totals P node ts (collector_new P)"
  let ?v = "\<lambda>ts. value_or_0 (pm_get P (oom_events_dropped_total (?c ts)) [node])"
  have step: "?v (ts @ [u]) = (if last_dropped_total (?c ts) < u
      then ?v ts + as_f64 (u - last_dropped_total (?c ts)) else ?v ts)"
    "last_dropped_total (?c (ts @ [u])) = u" for ts u
    using prom_vec.record_dropped_total_families(1) [OF assms(1) collector_okD(1) [OF
      prom_vec.reachable_ok [OF assms(1) prom_vec.reachable_record_totals [OF assms(1) reach_new]]]]
    by (simp_all add: record_totals_def record_dropped_total_other)
  have nat: "unat low < unat t" "unat (t - low) = unat t - unat low"
    using assms(2) by (simp_all add: word_less_nat_alt unat_sub word_le_nat_alt)
  have "?v [t] = F64 (unat t)"
    using nat step [of "[]" t] assms(3)
    by (simp add: prom_vec.collector_new_facts [OF assms(1)] word_less_nat_alt as_f64_exact
        f64_plus_exact zero_f64_def)
  moreover have "last_dropped_total (?c [t]) = t" using step(2) [of "[]" t] by simp
  ultimately have "?v [t, low] = F64 (unat t)" using step(1) [of "[t]" low] assms(2)
    by (auto dest: order.asym)
  moreover have "last_dropped_total (?c [t, low]) = low" using step(2) [of "[t]" low] by simp
  ultimately show ?thesis
    using step(1) [of "[t, low]" t] assms nat by (simp add: as_f64_exact f64_plus_exact)
qed

theorem drop_total_dip_is_recounted_witness:
  "value_or_0 (pm_get assoc_prom (oom_events_dropped_total
     (record_totals assoc_prom ''node-1'' [7, 2, 7] (collector_new assoc_prom))) [''node-1'']) = F64 12"
  using drop_total_dip_is_recounted [OF assoc.prom_vec_axioms, of 2 7 "''node-1''"]
  by (simp add: word_less_nat_alt)

end
