(* ===== verification/Http.thy ===== *)
theory Http
  imports Health Metrics Rust_Str
begin

text \<open>
  \<open>oom-watcher/src/http.rs\<close> and \<open>get_metrics\<close> of \<open>oom-watcher/src/metrics.rs\<close>: the two
  endpoints. The text encoder of the \<open>prometheus\<close> crate and the response builder of \<open>axum\<close>
  are parameters that may fail; what \<open>axum\<close> answers to other paths is not in the sources.
\<close>

type_synonym response = "nat \<times> string" \<comment> \<open>status, body\<close>

definition OK_STATUS :: nat where "OK_STATUS = 200"
definition SERVICE_UNAVAILABLE :: nat where "SERVICE_UNAVAILABLE = 503"
definition INTERNAL_SERVER_ERROR :: nat where "INTERNAL_SERVER_ERROR = 500"

definition get_metrics :: "('v collector \<Rightarrow> string option) \<Rightarrow> 'v collector \<Rightarrow> string" where
  "get_metrics encode c = (case encode c of None \<Rightarrow> [] | Some text \<Rightarrow> text)"

definition metrics_handler ::
  "((string \<times> string) list \<Rightarrow> string \<Rightarrow> 'response option) \<Rightarrow> ('v collector \<Rightarrow> string option) \<Rightarrow> 'v collector
     \<Rightarrow> nat + 'response" where
  "metrics_handler build encode c =
     (case build [(''content-type'', ''text/plain; version=0.0.4; charset=utf-8'')] (get_metrics encode c) of
        None \<Rightarrow> Inl INTERNAL_SERVER_ERROR
      | Some r \<Rightarrow> Inr r)"

fun report :: "liveness_state \<Rightarrow> response" where
  "report Starting =
     (SERVICE_UNAVAILABLE, ''starting: the watch loop has not begun draining events yet'' @ [newline])"
| "report (Live age_seconds) =
     (OK_STATUS, ''live: watch loop last woke '' @ show_nat (unat age_seconds) @ ''s ago'' @ [newline])"
| "report (Stale age_seconds) =
     (SERVICE_UNAVAILABLE, ''stale: the watch loop has not woken for '' @ show_nat (unat age_seconds)
        @ ''s (limit '' @ show_nat (unat HEARTBEAT_STALE_AFTER_SECONDS) @ ''s)'' @ [newline])"

definition health_handler :: "health \<Rightarrow> u64 \<Rightarrow> response" where
  "health_handler h now = report (liveness h now)"

datatype 'response answer = Metrics "nat + 'response" | Healthz response

definition router ::
  "((string \<times> string) list \<Rightarrow> string \<Rightarrow> 'response option) \<Rightarrow> ('v collector \<Rightarrow> string option)
     \<Rightarrow> 'v collector \<Rightarrow> health \<Rightarrow> u64 \<Rightarrow> string \<Rightarrow> 'response answer option" where
  "router build encode c h now path =
     (if path = ''/metrics'' then Some (Metrics (metrics_handler build encode c))
      else if path = ''/healthz'' then Some (Healthz (health_handler h now))
      else None)"

lemma show_90: "show_nat 90 = ''90''"
  by code_simp

lemma stale_body:
  "snd (report (Stale age)) = ''stale: the watch loop has not woken for '' @ show_nat (unat age)
     @ ''s (limit 90s)'' @ [newline]"
  by (simp add: stale_after show_90)

text \<open>
  (C34) \<open>/healthz\<close> answers 200 exactly when the loop has started and its last heartbeat is at
  most 90 seconds old, and 503 otherwise; \<open>/metrics\<close> does not depend on it.
\<close>

theorem healthz_status:
  "(\<exists>body. router build encode c h now ''/healthz'' = Some (Healthz (200, body)))
     = (hl_started h \<and> unat now - unat (hl_last_beat_seconds h) \<le> 90)
   \<and> (\<exists>code body. router build encode c h now ''/healthz'' = Some (Healthz (code, body)) \<and> code \<in> {200, 503})
   \<and> router build encode c h now ''/metrics'' = router build encode c h' now' ''/metrics''"
  by (auto simp: router_def health_handler_def liveness_def Let_def not_less word_le_nat_alt
      word_less_nat_alt stale_after unat_saturating_sub OK_STATUS_def SERVICE_UNAVAILABLE_def)

end
