(* ===== verification/Supervisor.thy ===== *)
theory Supervisor
  imports Watch Client Eviction Http
begin

text \<open>
  \<open>oom-watcher/src/main.rs\<close>: the configuration from the environment, start-up, the bodies of the
  supervised tasks and the \<open>select!\<close> that decides the exit status. Environment variables,
  the socket and the signals are results given as parameters.
\<close>

section \<open>Configuration\<close>

definition DEFAULT_SERIES_TTL_SECONDS :: u64 where "DEFAULT_SERIES_TTL_SECONDS = 1800"
definition DEFAULT_SERIES_SWEEP_INTERVAL_SECONDS :: u64 where "DEFAULT_SERIES_SWEEP_INTERVAL_SECONDS = 300"
definition CACHE_SYNC_TIMEOUT :: nat where "CACHE_SYNC_TIMEOUT = 10"

text \<open>\<open>env\<close> is the variable's value, if it is set and is Unicode.\<close>

definition env_seconds :: "string option \<Rightarrow> u64 \<Rightarrow> u64" where
  "env_seconds env dflt =
     max (case Option.bind env (parse_uint 64) of Some n \<Rightarrow> of_nat n | None \<Rightarrow> dflt) 1"

definition metrics_port :: "string option \<Rightarrow> u16" where
  "metrics_port env =
     (let raw = (case env of Some s \<Rightarrow> s | None \<Rightarrow> ''8080'') in
      case parse_uint 16 raw of Some n \<Rightarrow> of_nat n | None \<Rightarrow> 8080)"

text \<open>Seconds since the epoch; a clock before the epoch reads as zero.\<close>

definition wall_clock_secs :: "int \<Rightarrow> u64" where
  "wall_clock_secs since_epoch = (if since_epoch < 0 then 0 else of_int since_epoch)"

section \<open>The tasks\<close>

text \<open>
  The event processor: in a cluster it first waits for the cache, at most \<open>CACHE_SYNC_TIMEOUT\<close>,
  then asserts liveness and runs the loop. \<open>clock_at\<close> is the wall clock so many seconds after
  the task started.
\<close>

definition event_processor ::
  "('env, 's) source_ops \<Rightarrow> 'w recorder_ops \<Rightarrow> 'k resolver option \<Rightarrow> (nat \<Rightarrow> latch) \<Rightarrow> (nat \<Rightarrow> u64)
     \<Rightarrow> ('env, 'k) turn list \<Rightarrow> 's \<Rightarrow> 'w \<Rightarrow> health \<Rightarrow> run_end \<times> 's \<times> 'w \<times> health" where
  "event_processor S R k8s_client latch_at clock_at tns source recorder loop_health =
     (let waited = (case k8s_client of None \<Rightarrow> 0 | Some client \<Rightarrow> wait_until_synced latch_at CACHE_SYNC_TIMEOUT);
          started = mark_started (clock_at waited) loop_health
      in run S R k8s_client beat tns source recorder started)"

text \<open>The sweeper: the first tick is immediate and swallowed.\<close>

definition series_sweeper :: "'v prom \<Rightarrow> u64 \<Rightarrow> u64 list \<Rightarrow> 'v collector \<Rightarrow> 'v collector" where
  "series_sweeper P series_ttl ticks c =
     fold (\<lambda>now c. snd (evict_stale P now series_ttl c)) (tl ticks) c"

section \<open>Start-up and supervision\<close>

text \<open>The seams of start-up: the client, the listening socket and the source.\<close>

datatype startup_stage = Setup_client | Setup_bind | Setup_source

text \<open>
  A failed client means standalone mode, no resolver; a failed bind or source ends the process
  with its error. The second component is what was attempted, in order.
\<close>

definition start_up ::
  "(string + 'client) \<Rightarrow> (string + 'listener) \<Rightarrow> (string + 'source)
     \<Rightarrow> (string + ('client option \<times> 'listener \<times> 'source)) \<times> startup_stage list" where
  "start_up client_result bind_result source_result =
     (let k8s_client = (case client_result of Inr client \<Rightarrow> Some client | Inl e \<Rightarrow> None) in
      case bind_result of
        Inl e \<Rightarrow> (Inl e, [Setup_client, Setup_bind])
      | Inr listener \<Rightarrow>
          (case source_result of
             Inl e \<Rightarrow> (Inl e, [Setup_client, Setup_bind, Setup_source])
           | Inr source \<Rightarrow>
               (Inr (k8s_client, listener, source), [Setup_client, Setup_bind, Setup_source])))"

text \<open>The signals: installing the handler for SIGTERM may fail, and so may waiting for SIGINT.\<close>

datatype signal_event = Sigint "string + unit" | Sigterm

definition shutdown_signal :: "(string + unit) \<Rightarrow> signal_event \<Rightarrow> string + unit" where
  "shutdown_signal install first =
     (case install of
        Inl e \<Rightarrow> Inl e
      | Inr _ \<Rightarrow> (case first of Sigint res \<Rightarrow> res | Sigterm \<Rightarrow> Inr ()))"

text \<open>The arms of the \<open>select!\<close>, in the order in which they become ready.\<close>

datatype arm =
    Shutdown "string + unit"
  | Event_processor_exited
  | Metrics_server_exited
  | Series_sweeper_exited
  | Pod_cache_exited

fun supervise :: "bool \<Rightarrow> arm list \<Rightarrow> (string + unit) option" where
  "supervise watching_pods [] = None"
| "supervise watching_pods (Shutdown res # arms) = Some res"
| "supervise watching_pods (Event_processor_exited # arms) = Some (Inl ''event processor task exited'')"
| "supervise watching_pods (Metrics_server_exited # arms) = Some (Inl ''metrics server task exited'')"
| "supervise watching_pods (Series_sweeper_exited # arms) = Some (Inl ''series sweeper task exited'')"
| "supervise watching_pods (Pod_cache_exited # arms) =
     (if watching_pods then Some (Inl ''pod cache task exited'') else supervise watching_pods arms)"

text \<open>The whole of \<open>main\<close>: \<open>None\<close> while it runs.\<close>

definition main_outcome ::
  "(string + 'client) \<Rightarrow> (string + 'listener) \<Rightarrow> (string + 'source) \<Rightarrow> arm list \<Rightarrow> (string + unit) option" where
  "main_outcome client_result bind_result source_result arms =
     (case fst (start_up client_result bind_result source_result) of
        Inl e \<Rightarrow> Some (Inl e)
      | Inr (k8s_client, _) \<Rightarrow> supervise (k8s_client \<noteq> None) arms)"

fun_cases supervise_doneE: "supervise watching_pods (arm # arms) = Some res"

section \<open>What they guarantee\<close>

text \<open>
  Durations from the environment: a value that parses is taken, but never below one second;
  anything else gives the default. So the ticker's period is never zero, and a series recorded
  in the second of a sweep is never aged out by it.
\<close>

lemma env_seconds_at_least_one:
  "(\<forall>n. Option.bind env (parse_uint 64) = Some n \<longrightarrow> unat (env_seconds env dflt) = max n 1)
   \<and> (Option.bind env (parse_uint 64) = None \<longrightarrow> env_seconds env dflt = max dflt 1)
   \<and> (last_seen c = [(k, now)] \<and> deleted_after c = [] \<longrightarrow> \<not> expired now (env_seconds env dflt) c k)"
proof -
  have parsed: "unat (env_seconds env dflt) = max n 1" if "Option.bind env (parse_uint 64) = Some n" for n
  proof -
    from that obtain raw where "parse_uint 64 raw = Some n" by (auto simp: bind_eq_Some_conv)
    then have "n < 2 ^ 64" by (rule parse_uint_bound)
    then have "unat (of_nat n :: u64) = n" by (simp add: unsigned_of_nat take_bit_nat_eq_self)
    then show ?thesis by (auto simp: env_seconds_def that max_def word_le_nat_alt)
  qed
  have "0 < unat (env_seconds env dflt)"
    by (simp add: env_seconds_def max_def word_le_nat_alt not_le split: option.split)
  with parsed show ?thesis by (auto simp: env_seconds_def expired_def)
qed

lemma env_seconds_at_least_one_witness:
  "unat (env_seconds (Some ''0'') 1800) = 1 \<and> env_seconds None 1800 = 1800"
proof -
  have "Option.bind (Some ''0'') (parse_uint 64) = Some 0"
    by (simp add: parse_uint_def to_digit_def)
  with env_seconds_at_least_one [of "Some ''0''" 1800, THEN conjunct1]
  have "unat (env_seconds (Some ''0'') 1800) = 1" by simp
  moreover from env_seconds_at_least_one [of None 1800, THEN conjunct2, THEN conjunct1] have "env_seconds None 1800 = 1800" by (simp add: max_def word_le_nat_alt)
  ultimately show ?thesis by simp
qed

definition enabled :: "bool \<Rightarrow> arm list \<Rightarrow> arm list" where
  "enabled watching_pods arms = filter (\<lambda>a. watching_pods \<or> a \<noteq> Pod_cache_exited) arms"

lemma supervise_enabled:
  "supervise watching_pods arms = (case enabled watching_pods arms of
     [] \<Rightarrow> None | Shutdown res # _ \<Rightarrow> Some res | a # _ \<Rightarrow> supervise True [a])"
  by (induction watching_pods arms rule: supervise.induct) (auto simp: enabled_def)

lemma worker_exit: "supervise True [a] = Some res \<Longrightarrow> (\<nexists>r. a = Shutdown r) \<Longrightarrow> \<exists>e. res = Inl e"
  by (auto elim: supervise_doneE)

text \<open>
  (C36) The exit status: the process ends well exactly when start-up got through and a stop signal
  came before any worker ended; a worker that ends first, a failed bind and a failed probe each
  end it with an error, so that it is restarted. No cluster is no error: it only turns off the
  cache's arm.
\<close>

theorem exit_status:
  "(main_outcome client_result bind_result source_result arms = Some (Inr ()) \<longleftrightarrow>
      (\<exists>l. bind_result = Inr l) \<and> (\<exists>s. source_result = Inr s)
      \<and> (\<exists>later. enabled (\<exists>client. client_result = Inr client) arms = Shutdown (Inr ()) # later))
   \<and> (main_outcome client_result bind_result source_result arms = None \<longleftrightarrow>
      (\<exists>l. bind_result = Inr l) \<and> (\<exists>s. source_result = Inr s)
      \<and> enabled (\<exists>client. client_result = Inr client) arms = [])"
proof -
  let ?w = "\<exists>client. client_result = Inr client"
  have outcome: "main_outcome client_result bind_result source_result arms =
      (case bind_result of Inl e \<Rightarrow> Some (Inl e) | Inr l \<Rightarrow>
        (case source_result of Inl e \<Rightarrow> Some (Inl e) | Inr s \<Rightarrow> supervise ?w arms))"
    by (auto simp: main_outcome_def start_up_def Let_def split: sum.split)
  have "supervise ?w arms = Some (Inr ()) \<longleftrightarrow> (\<exists>later. enabled ?w arms = Shutdown (Inr ()) # later)"
    unfolding supervise_enabled [of ?w] by (auto split: list.split arm.split)
  moreover have "supervise ?w arms = None \<longleftrightarrow> enabled ?w arms = []"
    unfolding supervise_enabled [of ?w] by (auto split: list.split arm.split)
  ultimately show ?thesis unfolding outcome by (auto split: sum.split)
qed

text \<open>
  Starting to watch: liveness is asserted, and the loop entered, after at most the timeout;
  at once in standalone mode, and otherwise at the first moment the cache's latch is decided. A
  slow API server delays the loop but never prevents it.
\<close>

lemma watching_starts_in_time:
  "\<exists>t \<le> CACHE_SYNC_TIMEOUT.
     event_processor S R client latch_at clock_at tns s w h = run S R client beat tns s w (mark_started (clock_at t) h)
     \<and> (client = None \<longrightarrow> t = 0)
     \<and> (client \<noteq> None \<longrightarrow> (\<forall>u < t. latch_at u = Waiting) \<and> (t < CACHE_SYNC_TIMEOUT \<longrightarrow> latch_at t \<noteq> Waiting))"
proof (cases client)
  case None
  then show ?thesis by (auto simp: event_processor_def Let_def)
next
  case (Some r)
  let ?t = "wait_until_synced latch_at CACHE_SYNC_TIMEOUT"
  have "?t \<le> CACHE_SYNC_TIMEOUT \<and> (\<forall>u < ?t. latch_at u = Waiting)
      \<and> (?t < CACHE_SYNC_TIMEOUT \<longrightarrow> latch_at ?t \<noteq> Waiting)"
  proof (cases "find (\<lambda>t. latch_at t \<noteq> Waiting) [0..<CACHE_SYNC_TIMEOUT]")
    case None
    then have "\<forall>u < CACHE_SYNC_TIMEOUT. latch_at u = Waiting" by (simp add: find_None_iff)
    with None show ?thesis by (simp add: wait_until_synced_def)
  next
    case (Some t)
    then obtain i where "i < CACHE_SYNC_TIMEOUT" "latch_at t \<noteq> Waiting" "t = i" "\<forall>j < i. latch_at j = Waiting"
      by (auto simp: find_Some_iff)
    with Some show ?thesis by (simp add: wait_until_synced_def)
  qed
  with Some show ?thesis by (intro exI [of _ ?t]) (simp add: event_processor_def Let_def)
qed

lemma sweeps_remove:
  assumes "prom_vec P arity" "collector_reachable P c"
    and "case map_of (last_seen c) k of None \<Rightarrow> True | Some seen' \<Rightarrow> seen' = seen"
    and "tick \<in> set ticks" "unat seen + unat ttl \<le> unat tick"
  shows "map_of (last_seen (fold (\<lambda>now c. snd (evict_stale P now ttl c)) ticks c)) k = None
       \<and> collector_reachable P (fold (\<lambda>now c. snd (evict_stale P now ttl c)) ticks c)"
  using assms(2-4)
proof (induction ticks arbitrary: c)
  case Nil
  then show ?case by simp
next
  case (Cons now ticks)
  let ?c = "snd (evict_stale P now ttl c)"
  have reach: "collector_reachable P ?c" by (rule reach_evict [OF Cons.prems(1)])
  note after = prom_vec.sweep_result(2) [OF assms(1) prom_vec.reachable_ok [OF assms(1) Cons.prems(1)], of now ttl k]
  show ?case
  proof (cases "tick \<in> set ticks")
    case True
    with Cons.IH [OF reach] Cons.prems(2) show ?thesis by (simp add: after split: option.splits)
  next
    case False
    with Cons.prems(3) have "tick = now" by simp
    with Cons.prems(2) assms(5) have gone: "map_of (last_seen ?c) k = None"
      by (auto simp: after expired_def split: option.splits)
    have "map_of (last_seen (fold (\<lambda>now c. snd (evict_stale P now ttl c)) ts d)) k = None
        \<and> collector_reachable P (fold (\<lambda>now c. snd (evict_stale P now ttl c)) ts d)"
      if "collector_reachable P d" "map_of (last_seen d) k = None" for ts d
      using that
    proof (induction ts arbitrary: d)
      case Nil
      then show ?case by simp
    next
      case (Cons t ts)
      from Cons.prems have "map_of (last_seen (snd (evict_stale P t ttl d))) k = None"
        by (simp add: prom_vec.sweep_result(2) [OF assms(1) prom_vec.reachable_ok [OF assms(1)]])
      with Cons show ?case by (simp add: reach_evict)
    qed
    from this [OF reach gone] show ?thesis by simp
  qed
qed

text \<open>
  (C37) Cardinality is bounded by the sweeper: once a sweep has run at or after the end of a
  series' time to live, and the container has not been killed again, the series is gone, and it
  stays gone; a restart loop cannot accumulate series for longer than the TTL and one interval.
\<close>

theorem sweeper_bounds_retention:
  assumes "prom_vec P arity" "collector_reachable P c" "map_of (last_seen c) k = Some seen"
    and "tick \<in> set (tl ticks)" "unat seen + unat ttl \<le> unat tick"
  shows "k \<notin> tracked (series_sweeper P ttl ticks c)
       \<and> pm_get P (oom_kills_total (series_sweeper P ttl ticks c)) (labels k) = None"
proof -
  note gone = sweeps_remove [OF assms(1,2) _ assms(4,5), of k, folded series_sweeper_def]
  then have k: "k \<notin> tracked (series_sweeper P ttl ticks c)"
    using assms(3) by (simp only: map_of_eq_None_iff option.case simp_thms)
  from gone assms(3) have "collector_reachable P (series_sweeper P ttl ticks c)" by simp
  from series_trackedD(1) [OF collector_okD(4) [OF prom_vec.reachable_ok [OF assms(1) this]], of "labels k"] k
  show ?thesis unfolding labels_image by blast
qed

theorem sweeper_bounds_retention_witness:
  "sample_key ''cid-1'' \<notin> tracked (series_sweeper assoc_prom 1800 [1000, 2000, 2800] sample_collector)"
proof -
  have seen: "map_of (last_seen sample_collector) (sample_key ''cid-1'') = Some 1000"
    by (simp add: sample_last_seen)
  have "2800 \<in> set (tl [1000, 2000, 2800 :: u64])" by simp
  from sweeper_bounds_retention [OF assoc.prom_vec_axioms sample_reachable seen this, of 1800]
  show ?thesis by simp
qed

end
