(* ===== verification/Pipeline.thy ===== *)
theory Pipeline
  imports Supervisor
begin

text \<open>
  The lemmas behind the properties that span components: how many events the probe, the ring
  buffer, the source and the watch loop hold between them at every moment, and what a stream of
  pod deletions leaves in the collector.
\<close>

section \<open>Counting events through the source\<close>

definition cpus_ok :: "nat \<Rightarrow> (nat \<times> nat) list \<Rightarrow> bool" where
  "cpus_ok ncpu fires \<longleftrightarrow> list_all (\<lambda>(ctx, cpu). cpu < ncpu) fires"

lemma cpus_ok_append [simp]: "cpus_ok ncpu (xs @ ys) \<longleftrightarrow> cpus_ok ncpu xs \<and> cpus_ok ncpu ys"
  by (simp add: cpus_ok_def)

text \<open>The firings that get as far as an event; a failed read of the arguments ends the others.\<close>

definition reported :: "'ring bpf_helpers \<Rightarrow> (nat \<times> nat) list \<Rightarrow> nat" where
  "reported bpf fires = length (filter (args_readable bpf) fires)"

lemma reported_simps [simp]: "reported bpf [] = 0" "reported bpf (xs @ ys) = reported bpf xs + reported bpf ys"
  by (simp_all add: reported_def)

definition full_record :: "u8 list \<Rightarrow> bool" where
  "full_record data \<longleftrightarrow> size_of_OomKillEvent \<le> length data"

lemma length_decoded:
  "list_all full_record recs \<Longrightarrow> length (List.map_filter decode_record recs) = length recs"
  by (induction recs) (simp_all add: map_filter_simps full_record_def decode_record_def)

context ring_buf
begin

definition sound_maps :: "nat \<Rightarrow> 'ring probe_state \<Rightarrow> bool" where
  "sound_maps ncpu m \<longleftrightarrow> list_all full_record (contents (EVENTS m)) \<and> length (DROPPED m) = ncpu"

definition held :: "'ring probe_state \<Rightarrow> u64" where
  "held m = of_nat (length (contents (EVENTS m))) + sum_list (DROPPED m)"

lemma mark_victims_sound:
  "bpf_output bpf = put \<Longrightarrow> sound_maps ncpu m \<Longrightarrow> sound_maps ncpu (mark_victims bpf pad fires m)"
proof (induction fires arbitrary: m)
  case Nil
  then show ?case by simp
next
  case (Cons f fires)
  obtain ctx cpu where f: "f = (ctx, cpu)" by (cases f)
  have "sound_maps ncpu (snd (mark_victim bpf pad ctx cpu m))"
    using Cons.prems(2)
    by (auto simp: mark_victim_def Let_def Cons.prems(1) sound_maps_def full_record_def event_bytes_length
        split: option.split dest!: output_contents)
  with Cons show ?case by (simp add: f)
qed

lemma mark_victims_held:
  assumes "bpf_output bpf = put" "sound_maps ncpu m" "cpus_ok ncpu fires"
  shows "held (mark_victims bpf pad fires m) = held m + of_nat (reported bpf fires)"
  unfolding held_def
  using mark_victims_account [OF assms(1) _ refl, of fires m pad] assms(2,3)
  by (simp add: sound_maps_def cpus_ok_def reported_def list_all_iff)

lemma arrivals_held:
  assumes "bpf_output bpf = put"
  shows "sound_maps ncpu m \<Longrightarrow> cpus_ok ncpu (concat bs) \<Longrightarrow>
    sound_maps ncpu (fold (mark_victims bpf pad) bs m)
    \<and> held (fold (mark_victims bpf pad) bs m) = held m + of_nat (reported bpf (concat bs))"
proof (induction bs arbitrary: m)
  case Nil
  then show ?case by simp
next
  case (Cons b bs)
  then show ?case
    using Cons.IH [of "mark_victims bpf pad b m"]
    by (simp add: mark_victims_sound [OF assms] mark_victims_held [OF assms])
qed

definition in_source :: "'ring ring_buf_source \<Rightarrow> u64" where
  "in_source s = of_nat (length (rs_pending s)) + held (rs_maps s)"

lemma next_accounts:
  assumes "bpf_output bpf = put"
  shows "sound_maps ncpu (rs_maps s) \<Longrightarrow> cpus_ok ncpu (concat batches) \<Longrightarrow>
    ring_buf_next pop (mark_victims bpf pad) batches fails s = (r, s') \<Longrightarrow>
    sound_maps ncpu (rs_maps s')
    \<and> in_source s' + (case r of Ready (Some ev) \<Rightarrow> 1 | _ \<Rightarrow> 0) = in_source s + of_nat (reported bpf (concat batches))"
proof (induction batches arbitrary: s)
  case Nil
  then show ?case
    by (auto simp: ring_buf_next.simps [of _ _ "[]"] in_source_def split: list.splits if_splits)
next
  case (Cons b bs)
  show ?case
  proof (cases "rs_pending s")
    case Nil
    let ?m = "mark_victims bpf pad b (rs_maps s)"
    have m: "sound_maps ncpu ?m" "held ?m = held (rs_maps s) + of_nat (reported bpf b)"
      using Cons.prems(1,2) by (simp_all add: mark_victims_sound [OF assms] mark_victims_held [OF assms])
    obtain ring pending where d: "drain pop (EVENTS ?m) [] = Some (ring, pending)"
      using drain_terminates by blast
    let ?s = "s\<lparr>rs_maps := ?m\<lparr>EVENTS := ring\<rparr>, rs_pending := pending\<rparr>"
    have empty: "contents ring = []" and all: "pending = decoded (EVENTS ?m)"
      using drain_result [OF d] by simp_all
    have "length pending = length (contents (EVENTS ?m))"
      using m(1) by (simp add: all length_decoded sound_maps_def)
    then have "in_source ?s = in_source s + of_nat (reported bpf b)"
      using m(2) by (simp add: in_source_def held_def empty Nil)
    moreover have "sound_maps ncpu (rs_maps ?s)" using m(1) by (simp add: sound_maps_def empty)
    ultimately show ?thesis
      using Cons.IH [of ?s] Cons.prems(2,3) Nil d
      by (simp add: ring_buf_next.simps [of _ _ "b # bs"] Let_def)
  next
    case pending: (Cons ev rest)
    with Cons.prems arrivals_held [OF assms, of ncpu "rs_maps s" "b # bs" pad] show ?thesis
      by (auto simp: ring_buf_next.simps [of _ _ "b # bs"] in_source_def)
  qed
qed

end

text \<open>The firings that happen in the turns a run polls the source in.\<close>

fun polled_fires ::
  "('b list list \<times> bool, 's) source_ops \<Rightarrow> ('b list list \<times> bool, 'k) turn list \<Rightarrow> 's \<Rightarrow> 'b list" where
  "polled_fires S [] s = []"
| "polled_fires S (tn # tns) s =
     (if tn_beat_first tn then polled_fires S tns s
      else concat (fst (tn_env tn)) @
        (case select_wake S tn s of
           (Event raw, s') \<Rightarrow> polled_fires S tns s'
         | (Beat, s') \<Rightarrow> polled_fires S tns s'
         | _ \<Rightarrow> []))"

context ring_buf
begin

lemma run_accounts:
  assumes "bpf_output bpf = put"
    and S_def: "S = ring_buf_source_ops pop (mark_victims bpf pad) get_dropped"
  shows "sound_maps ncpu (rs_maps s) \<Longrightarrow> \<forall>tn \<in> set tns. cpus_ok ncpu (concat (fst (tn_env tn))) \<Longrightarrow>
    run S R resolver heartbeat tns s w h = (e, s', w', h') \<Longrightarrow>
    in_source s' + of_nat (length (deliveries S tns s)) = in_source s + of_nat (reported bpf (polled_fires S tns s))"
proof (induction tns arbitrary: s w h)
  case Nil
  then show ?case by simp
next
  case (Cons tn tns)
  show ?case
  proof (cases "tn_beat_first tn")
    case True
    with Cons show ?thesis by (simp add: select_wake_def)
  next
    case False
    obtain bs fails where env: "tn_env tn = (bs, fails)" by (cases "tn_env tn")
    obtain r sk where nx: "ring_buf_next pop (mark_victims bpf pad) bs fails s = (r, sk)" by fastforce
    have sel: "select_wake S tn s = (case r of Ready None \<Rightarrow> (Ended, sk) | Ready (Some raw) \<Rightarrow> (Event raw, sk)
        | Pending \<Rightarrow> (Beat, sk) | Hangs \<Rightarrow> (Blocked, sk))"
      using False by (simp add: select_wake_def S_def ring_buf_source_ops_def env nx split: poll.split option.split)
    have acc: "sound_maps ncpu (rs_maps sk)"
      "in_source sk + (case r of Ready (Some ev) \<Rightarrow> 1 | _ \<Rightarrow> 0) = in_source s + of_nat (reported bpf (concat bs))"
      using next_accounts [OF assms(1) Cons.prems(1) _ nx] Cons.prems(2) by (simp_all add: env)
    show ?thesis
    proof (cases r)
      case (Ready oe)
      show ?thesis
      proof (cases oe)
        case None
        with Cons.prems Ready acc False show ?thesis by (simp add: sel env)
      next
        case (Some raw)
        with Cons.IH [OF acc(1), of "handle_event S R resolver tn raw sk w" "heartbeat (tn_beat_clock tn) h"]
          Cons.prems Ready False acc(2)
        show ?thesis by (simp add: sel env algebra_simps)
      qed
    next
      case Pending
      with Cons.IH [OF acc(1), of w "heartbeat (tn_beat_clock tn) h"] Cons.prems False acc(2)
      show ?thesis by (simp add: sel env algebra_simps)
    next
      case Hangs
      with Cons.prems False acc(2) show ?thesis by (simp add: sel env)
    qed
  qed
qed

end

text \<open>The source on the sample probe, for the instances of the properties.\<close>

definition burst_source :: "((nat \<times> nat) list list \<times> bool, bounded_ring ring_buf_source) source_ops" where
  "burst_source = ring_buf_source_ops br_pop (mark_victims sample_bpf (\<lambda>_. 0)) (\<lambda>m. Some (DROPPED m))"

section \<open>Deletions reaching the collector\<close>

lemma deletions_scheduled:
  assumes "collector_reachable P c"
  shows "collector_reachable P (fold (\<lambda>(ns, name). \<lambda>c. note_pod_deleted ns name t c) ds c)
    \<and> last_seen (fold (\<lambda>(ns, name). \<lambda>c. note_pod_deleted ns name t c) ds c) = last_seen c
    \<and> ((ns, name) \<in> set ds \<longrightarrow>
        map_of (deleted_after (fold (\<lambda>(ns, name). \<lambda>c. note_pod_deleted ns name t c) ds c)) (ns, name)
          = Some (saturating_add t DELETED_POD_GRACE_SECONDS))"
  using assms
proof (induction ds rule: rev_induct)
  case Nil
  then show ?case by simp
next
  case (snoc d ds)
  obtain ns' name' where "d = (ns', name')" by (cases d)
  with snoc show ?case by (auto simp: reach_deleted note_pod_deleted_other)
qed

end
