(* ===== verification/Drops.thy ===== *)
theory Drops
  imports Pipeline
begin

text \<open>
  Lost events from the probe to \<open>oom_events_dropped_total\<close>: the per-CPU counters of \<open>DROPPED\<close>
  only grow, the source adds them up, the watch loop reports the sum after each event, and the
  collector counts the difference to the last report.
\<close>

section \<open>The probe's counters only grow\<close>

definition drops :: "'ring probe_state \<Rightarrow> nat" where
  "drops m = sum_list (map unat (DROPPED m))"

lemma unat_sum_list:
  fixes ws :: "u64 list"
  shows "sum_list (map unat ws) < 2 ^ 64 \<Longrightarrow> unat (sum_list ws) = sum_list (map unat ws)"
  by (induction ws) (simp_all add: unat_word_ariths)

lemma sum_unat_bump:
  fixes ws :: "u64 list"
  shows "cpu < length ws \<Longrightarrow> sum_list (map unat ws) + 1 < 2 ^ 64 \<Longrightarrow>
    sum_list (map unat (ws[cpu := ws ! cpu + 1])) = sum_list (map unat ws) + 1"
proof (induction ws arbitrary: cpu)
  case Nil
  then show ?case by simp
next
  case (Cons w ws)
  then show ?case
    by (cases cpu) (simp_all add: unat_word_ariths)
qed

lemma mark_victim_drops:
  assumes "drops m + 1 < 2 ^ 64"
  shows "drops m \<le> drops (snd (mark_victim bpf pad ctx cpu m))
       \<and> drops (snd (mark_victim bpf pad ctx cpu m)) \<le> drops m + 1"
  using assms sum_unat_bump [of cpu "DROPPED m"]
  by (auto simp: mark_victim_def Let_def drops_def split: option.split)

lemma mark_victims_drops:
  "drops m + length fires < 2 ^ 64 \<Longrightarrow>
     drops m \<le> drops (mark_victims bpf pad fires m)
     \<and> drops (mark_victims bpf pad fires m) \<le> drops m + length fires"
proof (induction fires arbitrary: m)
  case Nil
  then show ?case by simp
next
  case (Cons f fires)
  obtain ctx cpu where f: "f = (ctx, cpu)" by (cases f)
  have "drops m + 1 < 2 ^ 64" using Cons.prems by simp
  from mark_victim_drops [OF this, of bpf pad ctx cpu]
    Cons.IH [of "snd (mark_victim bpf pad ctx cpu m)"] Cons.prems
  show ?case by (simp add: f)
qed

lemma arrivals_drops:
  "drops m + length (concat bs) < 2 ^ 64 \<Longrightarrow>
     drops m \<le> drops (fold (mark_victims bpf pad) bs m)
     \<and> drops (fold (mark_victims bpf pad) bs m) \<le> drops m + length (concat bs)"
proof (induction bs arbitrary: m)
  case Nil
  then show ?case by simp
next
  case (Cons b bs)
  then have "drops m + length b < 2 ^ 64" by simp
  from mark_victims_drops [OF this, of bpf pad] Cons.IH [of "mark_victims bpf pad b m"] Cons.prems
  show ?case by simp
qed

lemma next_drops:
  "ring_buf_next pop (mark_victims bpf pad) bs fails s = (r, s') \<Longrightarrow>
   drops (rs_maps s) + length (concat bs) < 2 ^ 64 \<Longrightarrow>
     drops (rs_maps s) \<le> drops (rs_maps s') \<and> drops (rs_maps s') \<le> drops (rs_maps s) + length (concat bs)"
proof (induction bs arbitrary: s)
  case Nil
  then show ?case
    by (auto simp: ring_buf_next.simps [of _ _ "[]"] split: list.splits if_splits)
next
  case (Cons b bs)
  show ?case
  proof (cases "rs_pending s")
    case Nil
    let ?m = "mark_victims bpf pad b (rs_maps s)"
    have b: "drops (rs_maps s) \<le> drops ?m \<and> drops ?m \<le> drops (rs_maps s) + length b"
      by (rule mark_victims_drops) (use Cons.prems(2) in simp)
    show ?thesis
    proof (cases "drain pop (EVENTS ?m) []")
      case None
      with Cons.prems(1) Nil show ?thesis by (auto simp: ring_buf_next.simps [of _ _ "b # bs"])
    next
      case (Some d)
      obtain ring pending where d: "d = (ring, pending)" by (cases d)
      let ?s = "s\<lparr>rs_maps := ?m\<lparr>EVENTS := ring\<rparr>, rs_pending := pending\<rparr>"
      have "drops (rs_maps ?s) = drops ?m" by (simp add: drops_def)
      with Cons.IH [of ?s] Cons.prems Nil Some d b show ?thesis
        by (simp add: ring_buf_next.simps [of _ _ "b # bs"] Let_def)
    qed
  next
    case (Cons ev rest)
    with \<open>ring_buf_next pop (mark_victims bpf pad) (b # bs) fails s = (r, s')\<close>
      arrivals_drops [OF \<open>drops (rs_maps s) + length (concat (b # bs)) < 2 ^ 64\<close>, of bpf pad]
    show ?thesis by (auto simp: ring_buf_next.simps [of _ _ "b # bs"])
  qed
qed

section \<open>The totals the loop reports\<close>

fun reported_totals :: "('env, 's) source_ops \<Rightarrow> ('env, 'k) turn list \<Rightarrow> 's \<Rightarrow> u64 list" where
  "reported_totals S [] s = []"
| "reported_totals S (tn # tns) s =
     (case select_wake S tn s of
        (Event raw, s') \<Rightarrow>
          (case src_dropped_total S s' of Some tot \<Rightarrow> [tot] | None \<Rightarrow> []) @ reported_totals S tns s'
      | (Beat, s') \<Rightarrow> reported_totals S tns s'
      | _ \<Rightarrow> [])"

lemma reachable_process_event:
  "collector_reachable P c \<Longrightarrow> collector_reachable P (process_event (collector_recorder P) client world raw t c)"
  by (simp add: process_event_def Let_def collector_recorder_def reach_event reach_outcome split: option.split)

lemma process_event_drops:
  "oom_events_dropped_total (process_event (collector_recorder P) client world raw t c) = oom_events_dropped_total c"
  "last_dropped_total (process_event (collector_recorder P) client world raw t c) = last_dropped_total c"
  by (simp_all add: process_event_def Let_def collector_recorder_def collector_simps split: option.split)

text \<open>The counter of a node holds the last total reported.\<close>

definition drop_counter_current :: "'v prom \<Rightarrow> string \<Rightarrow> 'v collector \<Rightarrow> bool" where
  "drop_counter_current P node c \<longleftrightarrow>
     collector_reachable P c
     \<and> value_or_0 (pm_get P (oom_events_dropped_total c) [node]) = as_f64 (last_dropped_total c)"

context prom_vec
begin

lemma handle_event_drops:
  assumes "drop_counter_current P (node_label client) c"
    and "\<forall>tot. src_dropped_total S s = Some tot \<longrightarrow> last_dropped_total c \<le> tot \<and> unat tot < 2 ^ 53"
  shows "drop_counter_current P (node_label client) (handle_event S (collector_recorder P) client tn raw s c)
       \<and> last_dropped_total (handle_event S (collector_recorder P) client tn raw s c)
           = (case src_dropped_total S s of Some tot \<Rightarrow> tot | None \<Rightarrow> last_dropped_total c)"
proof -
  let ?c = "process_event (collector_recorder P) client (tn_world tn) raw (tn_event_clock tn) c"
  have c: "drop_counter_current P (node_label client) ?c" "last_dropped_total ?c = last_dropped_total c"
    using assms(1) by (simp_all add: drop_counter_current_def reachable_process_event process_event_drops)
  show ?thesis
  proof (cases "src_dropped_total S s")
    case None
    with c show ?thesis by (simp add: handle_event_def Let_def)
  next
    case (Some tot)
    with assms(2) c drop_counter_step [of ?c tot "node_label client"]
    have "drop_counter_current P (node_label client) (record_dropped_total P (node_label client) tot ?c)"
      by (simp add: drop_counter_current_def reach_dropped record_dropped_total_other)
    with Some show ?thesis
      by (simp add: handle_event_def Let_def collector_recorder_def record_dropped_total_other)
  qed
qed

lemma run_drops:
  assumes S_def: "S = ring_buf_source_ops pop (mark_victims bpf pad) get_dropped"
    and read: "\<forall>m. get_dropped m = None \<or> get_dropped m = Some (DROPPED m)"
  shows "drop_counter_current P (node_label client) c \<Longrightarrow>
    unat (last_dropped_total c) \<le> drops (rs_maps s) \<Longrightarrow>
    drops (rs_maps s) + length (polled_fires S tns s) < 2 ^ 53 \<Longrightarrow>
    run S (collector_recorder P) client heartbeat tns s c h = (e, s', c', h') \<Longrightarrow>
    drop_counter_current P (node_label client) c'
    \<and> last_dropped_total c' = last (last_dropped_total c # reported_totals S tns s)
    \<and> unat (last_dropped_total c') \<le> drops (rs_maps s') \<and> drops (rs_maps s') < 2 ^ 53"
proof (induction tns arbitrary: s c h)
  case Nil
  then show ?case by simp
next
  case (Cons tn tns)
  show ?case
  proof (cases "tn_beat_first tn")
    case True
    with Cons.IH [OF Cons.prems(1,2), of "heartbeat (tn_beat_clock tn) h"] Cons.prems(3,4)
    show ?thesis by (auto simp: select_wake_def simp del: last.simps)
  next
    case False
    obtain bs fails where env: "tn_env tn = (bs, fails)" by (cases "tn_env tn")
    obtain r sk where nx: "ring_buf_next pop (mark_victims bpf pad) bs fails s = (r, sk)" by fastforce
    have sel: "select_wake S tn s = (case r of Ready None \<Rightarrow> (Ended, sk) | Ready (Some raw) \<Rightarrow> (Event raw, sk)
        | Pending \<Rightarrow> (Beat, sk) | Hangs \<Rightarrow> (Blocked, sk))"
      using False by (simp add: select_wake_def S_def ring_buf_source_ops_def env nx split: poll.split option.split)
    have few: "drops (rs_maps s) + length (concat bs) < 2 ^ 53"
      using Cons.prems(3) False by (simp add: env)
    then have "drops (rs_maps s) + length (concat bs) < 2 ^ 64" by simp
    from next_drops [OF nx this] few
    have grow: "drops (rs_maps s) \<le> drops (rs_maps sk)" "drops (rs_maps sk) \<le> drops (rs_maps s) + length (concat bs)"
      "drops (rs_maps sk) < 2 ^ 53" by simp_all
    show ?thesis
    proof (cases r)
      case (Ready oe)
      show ?thesis
      proof (cases oe)
        case None
        with Cons.prems Ready grow show ?thesis by (simp add: sel)
      next
        case (Some raw)
        let ?c = "handle_event S (collector_recorder P) client tn raw sk c"
        have tot: "tot = sum_list (DROPPED (rs_maps sk)) \<and> unat tot = drops (rs_maps sk)"
          if "src_dropped_total S sk = Some tot" for tot
          using that read [rule_format, of "rs_maps sk"] unat_sum_list [of "DROPPED (rs_maps sk)"] grow(3)
          by (auto simp: S_def ring_buf_source_ops_def ring_buf_dropped_total_def drops_def)
        have "\<forall>tot. src_dropped_total S sk = Some tot \<longrightarrow> last_dropped_total c \<le> tot \<and> unat tot < 2 ^ 53"
          using tot grow Cons.prems(2) by (auto simp: word_le_nat_alt)
        from handle_event_drops [OF Cons.prems(1) this, of tn raw]
        have c: "drop_counter_current P (node_label client) ?c"
          "last_dropped_total ?c = (case src_dropped_total S sk of Some tot \<Rightarrow> tot | None \<Rightarrow> last_dropped_total c)"
          by blast+
        have "unat (last_dropped_total ?c) \<le> drops (rs_maps sk)"
          using c(2) tot Cons.prems(2) grow(1) by (auto split: option.split)
        from Cons.IH [OF c(1) this, of "heartbeat (tn_beat_clock tn) h"] Cons.prems(3,4) Ready Some False grow(2) c(2)
        show ?thesis by (auto simp: sel env last_ConsR simp del: last.simps split: option.splits)
      qed
    next
      case Pending
      with Cons.IH [OF Cons.prems(1), of sk "heartbeat (tn_beat_clock tn) h"] Cons.prems False grow
      show ?thesis by (auto simp: sel env simp del: last.simps)
    next
      case Hangs
      with Cons.prems grow show ?thesis by (simp add: sel)
    qed
  qed
qed

end

section \<open>The counter is the probe's\<close>

text \<open>
  (C29) Lost kills are counted too, from the failed reservation in the probe to \<open>/metrics\<close>: over
  any schedule from start-up, also when some reads of the per-CPU array fail, the drop counter
  of the node is the sum that the source read last, after an event; and the sum only grows, so
  the counter never exceeds what the probe has dropped.
\<close>

theorem drop_counter_is_probe_drops:
  assumes "prom_vec P arity"
    and "S = ring_buf_source_ops pop (mark_victims bpf pad) get_dropped"
    and "\<forall>m. get_dropped m = None \<or> get_dropped m = Some (DROPPED m)"
    and "DROPPED (rs_maps s0) = replicate ncpu 0" "length (polled_fires S tns s0) < 2 ^ 53"
    and "run S (collector_recorder P) client heartbeat tns s0 (collector_new P) h = (e, s, c, h')"
  shows "value_or_0 (pm_get P (oom_events_dropped_total c) [node_label client])
           = F64 (unat (last (0 # reported_totals S tns s0)))
       \<and> last (0 # reported_totals S tns s0) \<le> sum_list (DROPPED (rs_maps s))"
proof -
  have zero: "drops (rs_maps s0) = 0" by (simp add: drops_def assms(4) sum_list_replicate)
  have start: "drop_counter_current P (node_label client) (collector_new P)" "last_dropped_total (collector_new P) = 0"
    by (simp_all add: drop_counter_current_def reach_new prom_vec.collector_new_facts [OF assms(1)] as_f64_exact zero_f64_def)
  have fin: "drop_counter_current P (node_label client) c"
    "last_dropped_total c = last (0 # reported_totals S tns s0)"
    "unat (last_dropped_total c) \<le> drops (rs_maps s)" "drops (rs_maps s) < 2 ^ 53"
    using prom_vec.run_drops [OF assms(1,2,3) start(1) _ _ assms(6)] start(2) zero assms(5)
    by (auto simp del: last.simps)
  have "unat (sum_list (DROPPED (rs_maps s))) = drops (rs_maps s)"
    using fin(4) by (simp add: drops_def unat_sum_list)
  with fin show ?thesis
    by (simp add: drop_counter_current_def as_f64_exact word_le_nat_alt del: last.simps)
qed

text \<open>Three kills at once, on two CPUs, with room for one record: two are lost.\<close>

definition flood_turn :: "((nat \<times> nat) list list \<times> bool, unit) turn" where
  "flood_turn = \<lparr>tn_beat_first = False, tn_env = ([[(0, 0), (0, 0), (0, 1)]], False), tn_world = (),
     tn_event_clock = 1000, tn_beat_clock = 1000\<rparr>"

definition tight_source :: "bounded_ring ring_buf_source" where
  "tight_source = \<lparr>rs_maps = \<lparr>EVENTS = br_new 100, DROPPED = [0, 0]\<rparr>, rs_pending = []\<rparr>"

lemma flood_maps:
  "\<exists>ev. mark_victims sample_bpf (\<lambda>_. 0) [(0, 0), (0, 0), (0, 1)] (rs_maps tight_source)
     = \<lparr>EVENTS = \<lparr>br_records = [event_bytes (\<lambda>_. 0) ev], br_capacity = 100\<rparr>, DROPPED = [1, 1]\<rparr>"
  by (simp add: tight_source_def mark_victim_def sample_bpf_def Let_def br_output_def br_used_def br_new_def
      record_space_def event_bytes_length size_of_OomKillEvent_eq) blast

lemma flood_polled:
  "\<exists>ev s'. select_wake burst_source flood_turn tight_source = (Event ev, s') \<and> DROPPED (rs_maps s') = [1, 1]"
proof -
  obtain ev where m: "mark_victims sample_bpf (\<lambda>_. 0) [(0, 0), (0, 0), (0, 1)] (rs_maps tight_source)
     = \<lparr>EVENTS = \<lparr>br_records = [event_bytes (\<lambda>_. 0) ev], br_capacity = 100\<rparr>, DROPPED = [1, 1]\<rparr>"
    using flood_maps by blast
  let ?ring = "\<lparr>br_records = [event_bytes (\<lambda>_. 0) ev], br_capacity = 100\<rparr>"
  obtain ring pending where d: "drain br_pop ?ring [] = Some (ring, pending)"
    using br.drain_terminates by blast
  have "pending = [read_event (event_bytes (\<lambda>_. 0) ev)]"
    using br.drain_result [OF d] by (simp add: map_filter_simps decode_record_def event_bytes_length)
  with m d show ?thesis
    by (simp add: select_wake_def flood_turn_def burst_source_def ring_buf_source_ops_def
        ring_buf_next.simps Let_def tight_source_def)
qed

lemma flood_reported: "reported_totals burst_source [flood_turn] tight_source = [2]"
  using flood_polled
  by (auto simp: burst_source_def ring_buf_source_ops_def ring_buf_dropped_total_def)

theorem drop_counter_is_probe_drops_witness:
  "value_or_0 (pm_get assoc_prom (oom_events_dropped_total (fst (snd (snd
      (run burst_source (collector_recorder assoc_prom) (None :: unit resolver option) (\<lambda>t h. h)
        [flood_turn] tight_source (collector_new assoc_prom) ()))))) [''unknown'']) = F64 2"
proof -
  obtain e s c h' where r: "run burst_source (collector_recorder assoc_prom) (None :: unit resolver option)
      (\<lambda>t h. h) [flood_turn] tight_source (collector_new assoc_prom) () = (e, s, c, h')" by (metis prod_cases4)
  have "length (polled_fires burst_source [flood_turn] tight_source) < 2 ^ 53"
    by (simp add: flood_turn_def split: prod.split wake.split)
  moreover have "DROPPED (rs_maps tight_source) = replicate 2 0"
    by (simp add: tight_source_def numeral_2_eq_2)
  ultimately show ?thesis
    using drop_counter_is_probe_drops [OF assoc.prom_vec_axioms burst_source_def _ _ _ r, of 2] r
    by (simp add: flood_reported node_label_def del: run.simps reported_totals.simps)
qed

end
