(* ===== verification/Tasks.thy ===== *)
theory Tasks
  imports Eviction "HOL-Library.Multiset"
begin

text \<open>
  The tasks that share the collector of \<open>oom-watcher/src/metrics.rs\<close>, statement by statement: the
  watch loop runs the calls of \<open>MetricsRecorder\<close>, the sweeper of \<open>main.rs\<close> runs \<open>evict_stale\<close>,
  the pod cache's watch runs \<open>note_pod_deleted\<close> and the HTTP server runs \<open>get_metrics\<close>. A call
  is a list of instructions; each instruction is one step that any other task can come before
  or after. Locks are explicit: the two mutexes, and the lock of each metric family, which the
  \<open>prometheus\<close> crate takes within \<open>with_label_values\<close>, \<open>remove_label_values\<close> and gathering, and
  releases before it returns. This theory holds the model, its lock discipline and what a task
  does when the others wait.
\<close>

section \<open>Families and locks by name\<close>

datatype metric =
    Kills | Kills_Per_Node | Memory_Usage | Last_Timestamp | Resolution_Failures
  | Events_Dropped | Series_Evicted

fun family_of :: "metric \<Rightarrow> 'v collector \<Rightarrow> 'v" where
  "family_of Kills c = oom_kills_total c"
| "family_of Kills_Per_Node c = oom_kills_per_node_total c"
| "family_of Memory_Usage c = oom_memory_usage_bytes c"
| "family_of Last_Timestamp c = oom_last_timestamp c"
| "family_of Resolution_Failures c = oom_resolution_failures_total c"
| "family_of Events_Dropped c = oom_events_dropped_total c"
| "family_of Series_Evicted c = oom_series_evicted_total c"

fun on_family :: "metric \<Rightarrow> ('v \<Rightarrow> 'v) \<Rightarrow> 'v collector \<Rightarrow> 'v collector" where
  "on_family Kills f c = c\<lparr>oom_kills_total := f (oom_kills_total c)\<rparr>"
| "on_family Kills_Per_Node f c = c\<lparr>oom_kills_per_node_total := f (oom_kills_per_node_total c)\<rparr>"
| "on_family Memory_Usage f c = c\<lparr>oom_memory_usage_bytes := f (oom_memory_usage_bytes c)\<rparr>"
| "on_family Last_Timestamp f c = c\<lparr>oom_last_timestamp := f (oom_last_timestamp c)\<rparr>"
| "on_family Resolution_Failures f c =
     c\<lparr>oom_resolution_failures_total := f (oom_resolution_failures_total c)\<rparr>"
| "on_family Events_Dropped f c = c\<lparr>oom_events_dropped_total := f (oom_events_dropped_total c)\<rparr>"
| "on_family Series_Evicted f c = c\<lparr>oom_series_evicted_total := f (oom_series_evicted_total c)\<rparr>"

fun label_count :: "metric \<Rightarrow> nat" where
  "label_count Kills = 6"
| "label_count Kills_Per_Node = 1"
| "label_count Memory_Usage = 5"
| "label_count Last_Timestamp = 6"
| "label_count Resolution_Failures = 2"
| "label_count Events_Dropped = 1"
| "label_count Series_Evicted = 1"

datatype lock = Last_Seen | Deleted_After | Family metric

datatype task = Watch_Loop | Sweeper | Pod_Watch | Http

section \<open>The statements of each call\<close>

text \<open>
  \<open>With\<close> and \<open>Remove\<close> are the parts of \<open>with_label_values\<close> and \<open>remove_label_values\<close> under the
  family's lock. \<open>Inc_By\<close> and \<open>Set_To\<close> act on the handle that \<open>with_label_values\<close> returned,
  \<open>Raise\<close> is the \<open>gauge.get()\<close> and comparison before a \<open>gauge.set()\<close>. \<open>Drain\<close>, \<open>Scan\<close> and
  \<open>Evict\<close> are the two \<open>retain\<close>s of a sweep and the liveness test before one \<open>remove_series\<close>.
\<close>

datatype instr =
    Acquire lock
  | Release lock
  | With metric "string list"
  | Inc_By metric "string list" f64
  | Set_To metric "string list" f64
  | Raise "string list" u64
  | Remove metric "string list"
  | Swap_Dropped string u64
  | Insert_Seen series_key u64
  | Insert_Deleted "string \<times> string" u64
  | Drain u64 u64
  | Scan u64 u64 "(string \<times> string) list"
  | Evict series_key

definition child_call :: "metric \<Rightarrow> string list \<Rightarrow> instr \<Rightarrow> instr list" where
  "child_call m ls i = [Acquire (Family m), With m ls, Release (Family m), i]"

definition remove_call :: "metric \<Rightarrow> string list \<Rightarrow> instr list" where
  "remove_call m ls = [Acquire (Family m), Remove m ls, Release (Family m)]"

definition record_prog :: "enriched_oom_event \<Rightarrow> instr list" where
  "record_prog event =
     (let key = event_key event in
      child_call Kills (labels key) (Inc_By Kills (labels key) 1)
      @ child_call Kills_Per_Node [sk_node key] (Inc_By Kills_Per_Node [sk_node key] 1)
      @ concat (map (\<lambda>(memory_type, kilobytes).
            child_call Memory_Usage (memory_labels key memory_type) (Raise (memory_labels key memory_type) kilobytes))
          (zip MEMORY_TYPES (memory_values (en_raw_event event))))
      @ child_call Last_Timestamp (labels key) (Set_To Last_Timestamp (labels key) (as_f64 (en_timestamp event)))
      @ [Acquire Last_Seen, Insert_Seen key (en_timestamp event), Release Last_Seen])"

definition outcome_prog :: "string \<Rightarrow> resolution_outcome \<Rightarrow> instr list" where
  "outcome_prog node outcome =
     (let count = (\<lambda>reason. child_call Resolution_Failures [node, reason] (Inc_By Resolution_Failures [node, reason] 1))
      in case outcome of Found identity \<Rightarrow> [] | NotFound \<Rightarrow> count ''not_found'' | Failed e \<Rightarrow> count ''error'')"

definition note_prog :: "string \<Rightarrow> string \<Rightarrow> u64 \<Rightarrow> instr list" where
  "note_prog namespace pod now =
     [Acquire Deleted_After, Insert_Deleted (namespace, pod) (saturating_add now DELETED_POD_GRACE_SECONDS),
      Release Deleted_After]"

definition sweep_prog :: "u64 \<Rightarrow> u64 \<Rightarrow> instr list" where
  "sweep_prog now ttl_secs = [Acquire Deleted_After, Drain now ttl_secs]"

definition remove_prog :: "series_key \<Rightarrow> bool \<Rightarrow> instr list" where
  "remove_prog key memory_series_orphaned =
     remove_call Kills (labels key) @ remove_call Last_Timestamp (labels key)
     @ (if memory_series_orphaned
        then concat (map (\<lambda>memory_type. remove_call Memory_Usage (memory_labels key memory_type)) MEMORY_TYPES)
        else [])
     @ child_call Series_Evicted [sk_node key] (Inc_By Series_Evicted [sk_node key] 1)"

definition gather_prog :: "instr list" where
  "gather_prog = concat (map (\<lambda>m. [Acquire (Family m), Release (Family m)])
     [Kills, Kills_Per_Node, Memory_Usage, Last_Timestamp, Resolution_Failures, Events_Dropped, Series_Evicted])"

section \<open>One step\<close>

definition drain_due :: "u64 \<Rightarrow> 'v collector \<Rightarrow> 'v collector" where
  "drain_due now c =
     c\<lparr>deleted_after := hm_retain (\<lambda>pod removable_at. now < removable_at) (deleted_after c)\<rparr>"

definition scan_live :: "u64 \<Rightarrow> u64 \<Rightarrow> (string \<times> string) list \<Rightarrow> 'v collector \<Rightarrow> 'v collector" where
  "scan_live now ttl due c =
     c\<lparr>last_seen := hm_retain (\<lambda>key seen. \<not> is_stale now ttl due key seen) (last_seen c)\<rparr>"

definition scan_stale :: "u64 \<Rightarrow> u64 \<Rightarrow> (string \<times> string) list \<Rightarrow> 'v collector \<Rightarrow> series_key list" where
  "scan_stale now ttl due c = map fst (filter (\<lambda>(key, seen). is_stale now ttl due key seen) (last_seen c))"

text \<open>
  What an instruction does to the collector, and the instructions it goes on with. A handle
  outlives the removal of its child from the family; what is done to it then is never gathered.
  (A child that is removed is not created again while a handle to it is in use: only the watch
  loop creates children of the families from which children are removed, and it holds one
  handle at a time.)
\<close>

fun exec :: "'v prom \<Rightarrow> instr \<Rightarrow> 'v collector \<Rightarrow> 'v collector \<times> instr list" where
  "exec P (Acquire l) c = (c, [])"
| "exec P (Release l) c = (c, [])"
| "exec P (With m ls) c = (on_family m (\<lambda>v. pm_with P v ls) c, [])"
| "exec P (Inc_By m ls d) c =
     (on_family m (\<lambda>v. if pm_get P v ls = None then v else pm_inc_by P v ls d) c, [])"
| "exec P (Set_To m ls x) c =
     (on_family m (\<lambda>v. if pm_get P v ls = None then v else pm_set P v ls x) c, [])"
| "exec P (Raise ls kilobytes) c =
     (let bytes = as_f64 (kilobytes * 1024) in
      case pm_get P (oom_memory_usage_bytes c) ls of
        None \<Rightarrow> (c, [])
      | Some old \<Rightarrow> (c, if old < bytes then [Set_To Memory_Usage ls bytes] else []))"
| "exec P (Remove m ls) c = (on_family m (\<lambda>v. pm_remove P v ls) c, [])"
| "exec P (Swap_Dropped node tot) c =
     (c\<lparr>last_dropped_total := tot\<rparr>,
      case checked_sub tot (last_dropped_total c) of
        None \<Rightarrow> []
      | Some delta \<Rightarrow>
          if 0 < delta then child_call Events_Dropped [node] (Inc_By Events_Dropped [node] (as_f64 delta)) else [])"
| "exec P (Insert_Seen key seen) c = (c\<lparr>last_seen := hm_insert key seen (last_seen c)\<rparr>, [])"
| "exec P (Insert_Deleted pod at) c = (c\<lparr>deleted_after := hm_insert pod at (deleted_after c)\<rparr>, [])"
| "exec P (Drain now ttl) c =
     (drain_due now c, [Release Deleted_After, Acquire Last_Seen, Scan now ttl (due_pods now c)])"
| "exec P (Scan now ttl due) c =
     (scan_live now ttl due c, map Evict (scan_stale now ttl due c) @ [Release Last_Seen])"
| "exec P (Evict key) c = (c, remove_prog key (orphaned_by (last_seen c) key))"

record 'v shared =
  sh_metrics :: "'v collector"
  sh_held :: "lock \<Rightarrow> task option"
  sh_prog :: "task \<Rightarrow> instr list"

abbreviation is_lock_op :: "instr \<Rightarrow> bool" where
  "is_lock_op i \<equiv> \<exists>l. i = Acquire l \<or> i = Release l"

inductive task_step :: "'v prom \<Rightarrow> task \<Rightarrow> 'v shared \<Rightarrow> 'v shared \<Rightarrow> bool" for P t where
  acquires: "sh_prog s t = Acquire l # is \<Longrightarrow> sh_held s l = None \<Longrightarrow>
    task_step P t s (s\<lparr>sh_held := (sh_held s)(l := Some t), sh_prog := (sh_prog s)(t := is)\<rparr>)"
| releases: "sh_prog s t = Release l # is \<Longrightarrow> sh_held s l = Some t \<Longrightarrow>
    task_step P t s (s\<lparr>sh_held := (sh_held s)(l := None), sh_prog := (sh_prog s)(t := is)\<rparr>)"
| executes: "sh_prog s t = i # is \<Longrightarrow> \<not> is_lock_op i \<Longrightarrow> exec P i (sh_metrics s) = (c, follow) \<Longrightarrow>
    task_step P t s (s\<lparr>sh_metrics := c, sh_prog := (sh_prog s)(t := follow @ is)\<rparr>)"

text \<open>What a task that has nothing in hand may call.\<close>

inductive calls :: "u64 \<Rightarrow> task \<Rightarrow> instr list \<Rightarrow> bool" for ttl where
  "calls ttl Watch_Loop (record_prog event)"
| "calls ttl Watch_Loop (outcome_prog node outcome)"
| "calls ttl Watch_Loop [Swap_Dropped node tot]"
| "calls ttl Sweeper (sweep_prog now ttl)"
| "calls ttl Pod_Watch (note_prog namespace pod now)"
| "calls ttl Http gather_prog"

inductive shared_step :: "'v prom \<Rightarrow> u64 \<Rightarrow> 'v shared \<Rightarrow> 'v shared \<Rightarrow> bool" for P ttl where
  begins: "sh_prog s t = [] \<Longrightarrow> calls ttl t is \<Longrightarrow> shared_step P ttl s (s\<lparr>sh_prog := (sh_prog s)(t := is)\<rparr>)"
| proceeds: "task_step P t s s' \<Longrightarrow> shared_step P ttl s s'"

inductive_cases task_stepE: "task_step P t s s'"
inductive_cases shared_stepE: "shared_step P ttl s s'"

definition at_rest :: "'v collector \<Rightarrow> 'v shared" where
  "at_rest c = \<lparr>sh_metrics = c, sh_held = (\<lambda>l. None), sh_prog = (\<lambda>t. [])\<rparr>"

abbreviation shared_steps :: "'v prom \<Rightarrow> u64 \<Rightarrow> 'v shared \<Rightarrow> 'v shared \<Rightarrow> bool" where
  "shared_steps P ttl \<equiv> (shared_step P ttl)\<^sup>*\<^sup>*"

section \<open>The lock discipline\<close>

text \<open>
  A mutex can be held while a family's lock is taken, and nothing else: the order that rules
  out a cycle.
\<close>

fun rank :: "lock \<Rightarrow> nat" where
  "rank (Family m) = 1"
| "rank _ = 0"

text \<open>
  The rest of a call, given the locks its task holds: every lock is taken in the order and
  given back, and what a lock guards is touched only under it.
\<close>

fun disciplined :: "lock set \<Rightarrow> instr list \<Rightarrow> bool" where
  "disciplined H [] \<longleftrightarrow> H = {}"
| "disciplined H (Acquire l # is) \<longleftrightarrow> (\<forall>h \<in> H. rank h < rank l) \<and> disciplined (insert l H) is"
| "disciplined H (Release l # is) \<longleftrightarrow> l \<in> H \<and> disciplined (H - {l}) is"
| "disciplined H (With m ls # is) \<longleftrightarrow> Family m \<in> H \<and> disciplined H is"
| "disciplined H (Remove m ls # is) \<longleftrightarrow> Family m \<in> H \<and> disciplined H is"
| "disciplined H (Inc_By m ls d # is) \<longleftrightarrow> disciplined H is"
| "disciplined H (Set_To m ls x # is) \<longleftrightarrow> disciplined H is"
| "disciplined H (Raise ls kb # is) \<longleftrightarrow> disciplined H is"
| "disciplined H (Swap_Dropped node tot # is) \<longleftrightarrow> H = {} \<and> disciplined H is"
| "disciplined H (Insert_Seen k t # is) \<longleftrightarrow> Last_Seen \<in> H \<and> disciplined H is"
| "disciplined H (Insert_Deleted p t # is) \<longleftrightarrow> Deleted_After \<in> H \<and> disciplined H is"
| "disciplined H (Drain now ttl # is) \<longleftrightarrow> H = {Deleted_After} \<and> is = []"
| "disciplined H (Scan now ttl due # is) \<longleftrightarrow> H = {Last_Seen} \<and> is = []"
| "disciplined H (Evict k # is) \<longleftrightarrow> H = {Last_Seen} \<and> disciplined H is"

text \<open>The instructions that need no lock of their own.\<close>

fun lock_free :: "instr \<Rightarrow> bool" where
  "lock_free (Inc_By m ls d) = True"
| "lock_free (Set_To m ls x) = True"
| "lock_free (Raise ls kb) = True"
| "lock_free _ = False"

lemma disciplined_lock_free: "lock_free i \<Longrightarrow> disciplined H (i # is) = disciplined H is"
  by (cases i) simp_all

lemma disciplined_child_call:
  "H \<subseteq> {Last_Seen} \<Longrightarrow> lock_free i \<Longrightarrow> disciplined H (child_call m ls i @ is) = disciplined H is"
  by (cases "H = {}") (auto simp: child_call_def disciplined_lock_free subset_singleton_iff)

lemma disciplined_remove_call:
  "H \<subseteq> {Last_Seen} \<Longrightarrow> disciplined H (remove_call m ls @ is) = disciplined H is"
  by (cases "H = {}") (auto simp: remove_call_def subset_singleton_iff)

lemmas disciplined_calls = disciplined_child_call disciplined_remove_call

lemma disciplined_remove_prog:
  "disciplined {Last_Seen} (remove_prog k orph @ is) = disciplined {Last_Seen} is"
  by (simp add: remove_prog_def disciplined_calls MEMORY_TYPES_def)

lemma disciplined_evictions: "disciplined {Last_Seen} (map Evict ks @ [Release Last_Seen])"
  by (induction ks) simp_all

lemma calls_disciplined: "calls ttl t is \<Longrightarrow> disciplined {} is"
  by (induction rule: calls.induct)
     (simp_all add: record_prog_def outcome_prog_def note_prog_def sweep_prog_def gather_prog_def Let_def
        disciplined_calls disciplined_child_call [of _ _ _ _ "[]", simplified] MEMORY_TYPES_def memory_values_def
        split: resolution_outcome.split)

lemma exec_disciplined:
  assumes "exec P i c = (c', follow)" "\<not> is_lock_op i" "disciplined H (i # is)"
  shows "disciplined H (follow @ is)"
  using assms
  by (cases i)
     (auto simp: Let_def disciplined_remove_prog disciplined_evictions disciplined_calls
        split: option.splits if_splits)

definition held_by :: "'v shared \<Rightarrow> task \<Rightarrow> lock set" where
  "held_by s t = {l. sh_held s l = Some t}"

definition locks_ok :: "'v shared \<Rightarrow> bool" where
  "locks_ok s \<longleftrightarrow> (\<forall>t. inj_on rank (held_by s t) \<and> disciplined (held_by s t) (sh_prog s t))"

lemma locks_apart: "locks_ok s \<Longrightarrow> \<not> (sh_held s Last_Seen = Some t \<and> sh_held s Deleted_After = Some t)"
  by (force simp: locks_ok_def held_by_def dest: inj_onD [of rank _ Last_Seen Deleted_After])

lemma locks_ok_rest: "locks_ok (at_rest c)"
  by (simp add: locks_ok_def at_rest_def held_by_def)

lemma locks_ok_step:
  assumes "task_step P t s s'" "locks_ok s"
  shows "locks_ok s'"
  unfolding locks_ok_def
proof
  fix u
  have t: "inj_on rank (held_by s t)" "disciplined (held_by s t) (sh_prog s t)"
    and u: "inj_on rank (held_by s u)" "disciplined (held_by s u) (sh_prog s u)"
    using assms(2) by (simp_all add: locks_ok_def)
  from assms(1) show "inj_on rank (held_by s' u) \<and> disciplined (held_by s' u) (sh_prog s' u)"
  proof (cases rule: task_step.cases)
    case (acquires l "is")
    then have "held_by s' u = (if u = t then insert l (held_by s t) else held_by s u)"
      by (auto simp: held_by_def)
    with t u acquires show ?thesis by (auto simp: inj_on_def)
  next
    case (releases l "is")
    then have "held_by s' u = (if u = t then held_by s t - {l} else held_by s u)"
      by (auto simp: held_by_def)
    with t u releases show ?thesis by (auto intro: inj_on_subset)
  next
    case (executes i "is" c follow)
    then have "held_by s' u = held_by s u" by (simp add: held_by_def)
    with t u executes exec_disciplined [OF executes(4,3)] show ?thesis by auto
  qed
qed

lemma locks_ok_reachable: "shared_steps P ttl (at_rest c) s \<Longrightarrow> locks_ok s"
proof (induction rule: rtranclp_induct)
  case base
  show ?case by (rule locks_ok_rest)
next
  case (step s s')
  from step(2) show ?case
  proof (cases rule: shared_step.cases)
    case (begins t "is")
    have "inj_on rank (held_by s u)" "disciplined (held_by s u) (sh_prog s u)" for u
      using step(3) by (simp_all add: locks_ok_def)
    with begins calls_disciplined [OF begins(3)] show ?thesis
      by (auto simp: locks_ok_def held_by_def) (metis disciplined.simps(1) empty_Collect_eq)
  next
    case (proceeds t)
    with step(3) locks_ok_step show ?thesis by blast
  qed
qed

section \<open>Progress\<close>

lemma runnable:
  assumes "locks_ok s" "sh_prog s t = i # is" "\<And>l. i = Acquire l \<Longrightarrow> sh_held s l = None"
  shows "\<exists>s'. task_step P t s s'"
proof (cases i)
  case (Acquire l)
  with assms(2,3) show ?thesis by (auto intro: acquires)
next
  case (Release l)
  from assms(1) have "disciplined (held_by s t) (sh_prog s t)" by (simp add: locks_ok_def)
  with Release assms(2) have "sh_held s l = Some t" by (simp add: held_by_def)
  with Release assms(2) show ?thesis by (auto intro: releases)
qed (use assms(2) in \<open>auto intro: executes [OF assms(2) _ surjective_pairing]\<close>)

lemma owner_runs:
  assumes "locks_ok s" "sh_held s l = Some t"
  shows "\<exists>i is. sh_prog s t = i # is \<and> (\<forall>l'. i = Acquire l' \<longrightarrow> rank l < rank l')"
proof -
  have d: "disciplined (held_by s t) (sh_prog s t)" using assms(1) by (simp add: locks_ok_def)
  have h: "l \<in> held_by s t" using assms(2) by (simp add: held_by_def)
  with d obtain i "is" where "sh_prog s t = i # is" by (cases "sh_prog s t") auto
  with d h show ?thesis by auto
qed

text \<open>Whoever a task waits for waits, if at all, for a lock that comes later in the order.\<close>

lemma someone_runs:
  assumes "locks_ok s" "sh_prog s t = i # is"
  shows "\<exists>u s'. task_step P u s s'"
proof -
  have wait: "\<exists>u s'. task_step P u s s'" if "sh_prog s t = Acquire l # is" for t l "is"
    using that
  proof (induction "2 - rank l" arbitrary: t l "is" rule: less_induct)
    case less
    show ?case
    proof (cases "sh_held s l")
      case None
      with less.prems show ?thesis by (auto intro: acquires)
    next
      case (Some u)
      from owner_runs [OF assms(1) this] obtain j js
        where u: "sh_prog s u = j # js" "\<forall>l'. j = Acquire l' \<longrightarrow> rank l < rank l'" by blast
      show ?thesis
      proof (cases "\<exists>l'. j = Acquire l'")
        case True
        then obtain l' where j: "j = Acquire l'" by blast
        with u have "rank l < rank l'" by blast
        moreover have "rank l' \<le> 1" by (cases l') simp_all
        ultimately have "2 - rank l' < 2 - rank l" by simp
        from less.hyps [OF this] u(1) j show ?thesis by blast
      next
        case False
        with runnable [OF assms(1) u(1)] show ?thesis by blast
      qed
    qed
  qed
  show ?thesis
  proof (cases "\<exists>l. i = Acquire l")
    case True
    with assms(2) wait show ?thesis by blast
  next
    case False
    then have "\<exists>s'. task_step P t s s'" by (intro runnable [OF assms]) blast
    then show ?thesis by blast
  qed
qed

text \<open>
  What is in hand: an instruction goes on with instructions of a lower level, so the multiset of
  levels of all that is left to do decreases.
\<close>

fun level :: "instr \<Rightarrow> nat" where
  "level (Drain now ttl) = 3"
| "level (Scan now ttl due) = 2"
| "level (Evict k) = 1"
| "level (Raise ls kb) = 1"
| "level (Swap_Dropped node tot) = 1"
| "level _ = 0"

definition in_hand :: "'v shared \<Rightarrow> nat multiset" where
  "in_hand s = mset (map level (concat (map (sh_prog s) [Watch_Loop, Sweeper, Pod_Watch, Http])))"

lemma level_child_call: "lock_free i \<Longrightarrow> level i = 0 \<Longrightarrow> j \<in> set (child_call m ls i) \<Longrightarrow> level j = 0"
  by (auto simp: child_call_def)

lemma level_remove_prog: "j \<in> set (remove_prog k orph) \<Longrightarrow> level j = 0"
  by (auto simp: remove_prog_def remove_call_def child_call_def split: if_splits)

lemma exec_level: "exec P i c = (c', follow) \<Longrightarrow> j \<in> set follow \<Longrightarrow> level j < level i"
  by (cases i)
     (auto simp: Let_def child_call_def dest: level_remove_prog split: option.splits if_splits)

lemma in_hand_upd:
  "\<exists>M. \<forall>js. in_hand (s\<lparr>sh_metrics := c, sh_held := h, sh_prog := (sh_prog s)(t := js)\<rparr>) = M + mset (map level js)"
  by (cases t) (auto simp: in_hand_def ac_simps intro: exI [of _ "mset (map level (concat (map (sh_prog s)
      (filter (\<lambda>u. u \<noteq> t) [Watch_Loop, Sweeper, Pod_Watch, Http]))))"])

lemma in_hand_replace:
  assumes "sh_prog s t = i # is" "\<forall>j \<in> set follow. level j < level i"
  shows "(in_hand (s\<lparr>sh_metrics := c, sh_held := h, sh_prog := (sh_prog s)(t := follow @ is)\<rparr>), in_hand s)
    \<in> mult less_than"
proof -
  obtain M where M: "\<forall>js. in_hand (s\<lparr>sh_metrics := c, sh_held := h, sh_prog := (sh_prog s)(t := js)\<rparr>) = M + mset (map level js)"
    using in_hand_upd [where s = s and c = c and h = h and t = t] by blast
  have "in_hand s = in_hand (s\<lparr>sh_metrics := c, sh_held := h, sh_prog := (sh_prog s)(t := i # is)\<rparr>)"
    unfolding in_hand_def assms(1) [symmetric] by simp
  with M have s: "in_hand s = (M + mset (map level is)) + {#level i#}" by simp
  have s': "in_hand (s\<lparr>sh_metrics := c, sh_held := h, sh_prog := (sh_prog s)(t := follow @ is)\<rparr>)
      = (M + mset (map level is)) + mset (map level follow)" using M by (simp add: ac_simps)
  show ?thesis unfolding s s' by (rule one_step_implies_mult) (use assms(2) in auto)
qed

lemma task_step_in_hand:
  assumes "task_step P t s s'"
  shows "(in_hand s', in_hand s) \<in> mult less_than"
  using assms
proof (cases rule: task_step.cases)
  case (acquires l "is")
  with in_hand_replace [OF acquires(2), where follow = "[]" and c = "sh_metrics s"] show ?thesis by simp
next
  case (releases l "is")
  with in_hand_replace [OF releases(2), where follow = "[]" and c = "sh_metrics s"] show ?thesis by simp
next
  case (executes i "is" c follow)
  with in_hand_replace [OF executes(2), where follow = follow and c = c and h = "sh_held s"] exec_level [OF executes(4)]
  show ?thesis by simp
qed

abbreviation task_steps :: "'v prom \<Rightarrow> 'v shared \<Rightarrow> 'v shared \<Rightarrow> bool" where
  "task_steps P \<equiv> (\<lambda>s s'. \<exists>t. task_step P t s s')\<^sup>*\<^sup>*"

lemma no_endless_work: "\<not> (\<forall>n :: nat. \<exists>t. task_step P t (f n) (f (Suc n)))"
proof
  assume *: "\<forall>n. \<exists>t. task_step P t (f n) (f (Suc n))"
  have "(in_hand (f (Suc n)), in_hand (f n)) \<in> mult less_than" for n
    using * task_step_in_hand by blast
  then have "\<exists>g. \<forall>n. (g (Suc n), g n) \<in> mult less_than" by (intro exI [of _ "\<lambda>n. in_hand (f n)"]) blast
  with wf_mult [OF wf_less_than] show False unfolding wf_iff_no_infinite_down_chain by blast
qed

lemma idle_is_rest:
  assumes "locks_ok s" "\<forall>t. sh_prog s t = []"
  shows "s = at_rest (sh_metrics s)"
proof -
  have "held_by s t = {}" for t using assms by (simp add: locks_ok_def)
  then have "sh_held s l = None" for l by (cases "sh_held s l") (auto simp: held_by_def)
  then have "sh_held s = (\<lambda>l. None)" "sh_prog s = (\<lambda>t. [])" using assms(2) by auto
  then show ?thesis by (simp add: at_rest_def)
qed

lemma work_finishes: "locks_ok s \<Longrightarrow> \<exists>c. task_steps P s (at_rest c)"
proof (induction "in_hand s" arbitrary: s rule: wf_induct_rule [OF wf_mult [OF wf_less_than]])
  case 1
  show ?case
  proof (cases "\<forall>t. sh_prog s t = []")
    case True
    from idle_is_rest [OF 1(2) True] show ?thesis by (metis rtranclp.rtrancl_refl)
  next
    case False
    then obtain t i "is" where "sh_prog s t = i # is" by (metis list.exhaust)
    from someone_runs [OF 1(2) this] obtain u s' where u: "task_step P u s s'" by blast
    from 1(1) [OF task_step_in_hand [OF u] locks_ok_step [OF u 1(2)]] obtain c
      where c: "task_steps P s' (at_rest c)" by blast
    from u have "\<exists>t. task_step P t s s'" by blast
    from converse_rtranclp_into_rtranclp [OF this c] show ?thesis by blast
  qed
qed

section \<open>A call while the others wait\<close>

inductive runs :: "'v prom \<Rightarrow> instr list \<Rightarrow> 'v collector \<Rightarrow> 'v collector \<Rightarrow> bool" for P where
  runs_done: "runs P [] c c"
| runs_step: "exec P i c = (c1, follow) \<Longrightarrow> runs P (follow @ is) c1 c' \<Longrightarrow> runs P (i # is) c c'"

lemma runs_append: "runs P xs c c1 \<Longrightarrow> runs P ys c1 c' \<Longrightarrow> runs P (xs @ ys) c c'"
  by (induction rule: runs.induct) (auto intro: runs_step)

lemma runs_follow: "runs P (snd (exec P i c) @ is) (fst (exec P i c)) c' \<Longrightarrow> runs P (i # is) c c'"
  by (rule runs_step [of P i c "fst (exec P i c)" "snd (exec P i c)"]) simp_all

text \<open>The front part of a task's program, run with every lock free of other tasks.\<close>

lemma solo:
  assumes "runs P xs c c'" "disciplined (held_by s t) xs" "sh_metrics s = c" "sh_prog s t = xs @ ys"
    and "\<And>l u. sh_held s l = Some u \<Longrightarrow> u = t"
  shows "shared_steps P ttl s \<lparr>sh_metrics = c', sh_held = (\<lambda>l. None), sh_prog = (sh_prog s)(t := ys)\<rparr>"
  using assms
proof (induction arbitrary: s rule: runs.induct)
  case (runs_done c)
  have "sh_held s l = None" for l
    using runs_done(1) runs_done(4) [of l] by (cases "sh_held s l") (auto simp: held_by_def)
  then have "sh_held s = (\<lambda>l. None)" by (simp add: fun_eq_iff)
  moreover have "(sh_prog s)(t := ys) = sh_prog s" using runs_done(3) by (auto simp: fun_eq_iff)
  ultimately show ?case using runs_done(2) by (cases s) simp
next
  case (runs_step i c c1 follow xs c')
  have *: "shared_steps P ttl s \<lparr>sh_metrics = c', sh_held = (\<lambda>l. None), sh_prog = (sh_prog s)(t := ys)\<rparr>"
    if st: "task_step P t s s1" and s1: "sh_metrics s1 = c1" "sh_prog s1 = (sh_prog s)(t := (follow @ xs) @ ys)"
      and h: "\<And>l u. sh_held s1 l = Some u \<Longrightarrow> u = t" and d: "disciplined (held_by s1 t) (follow @ xs)" for s1
  proof -
    have "shared_steps P ttl s1 \<lparr>sh_metrics = c', sh_held = (\<lambda>l. None), sh_prog = (sh_prog s1)(t := ys)\<rparr>"
      by (rule runs_step.IH [OF d s1(1) _ h]) (simp_all add: s1(2))
    then show ?thesis using proceeds [OF st, of ttl] by (simp add: s1(2) converse_rtranclp_into_rtranclp)
  qed
  show ?case
  proof (cases "is_lock_op i")
    case False
    show ?thesis
    proof (rule * [OF executes])
      show "sh_prog s t = i # (xs @ ys)" using runs_step.prems(3) by simp
      show "exec P i (sh_metrics s) = (c1, follow)" using runs_step.hyps runs_step.prems(2) by simp
      show "disciplined (held_by (s\<lparr>sh_metrics := c1, sh_prog := (sh_prog s)(t := follow @ xs @ ys)\<rparr>) t) (follow @ xs)"
        using exec_disciplined [OF runs_step.hyps(1) False runs_step.prems(1)] by (simp add: held_by_def)
    qed (use False runs_step.prems(4) in auto)
  next
    case True
    then obtain l where l: "i = Acquire l \<or> i = Release l" by blast
    with runs_step.hyps(1) have e: "c1 = c" "follow = []" by auto
    from l show ?thesis
    proof
      assume i: "i = Acquire l"
      have "sh_held s l \<noteq> Some t" using runs_step.prems(1) i by (auto simp: held_by_def)
      then have free: "sh_held s l = None" using runs_step.prems(4) [of l] by (cases "sh_held s l") auto
      show ?thesis
      proof (rule * [OF acquires [OF _ free]])
        show "sh_prog s t = Acquire l # (xs @ ys)" using runs_step.prems(3) i by simp
        have "held_by (s\<lparr>sh_held := (sh_held s)(l := Some t), sh_prog := (sh_prog s)(t := xs @ ys)\<rparr>) t
            = insert l (held_by s t)" by (auto simp: held_by_def)
        then show "disciplined (held_by (s\<lparr>sh_held := (sh_held s)(l := Some t), sh_prog := (sh_prog s)(t := xs @ ys)\<rparr>) t)
            (follow @ xs)" using runs_step.prems(1) i e by simp
      qed (use runs_step.prems(2,4) e in \<open>auto split: if_splits\<close>)
    next
      assume i: "i = Release l"
      have own: "sh_held s l = Some t" using runs_step.prems(1) i by (simp add: held_by_def)
      show ?thesis
      proof (rule * [OF releases [OF _ own]])
        show "sh_prog s t = Release l # (xs @ ys)" using runs_step.prems(3) i by simp
        have "held_by (s\<lparr>sh_held := (sh_held s)(l := None), sh_prog := (sh_prog s)(t := xs @ ys)\<rparr>) t
            = held_by s t - {l}" by (auto simp: held_by_def)
        then show "disciplined (held_by (s\<lparr>sh_held := (sh_held s)(l := None), sh_prog := (sh_prog s)(t := xs @ ys)\<rparr>) t)
            (follow @ xs)" using runs_step.prems(1) i e by simp
      qed (use runs_step.prems(2,4) e in \<open>auto split: if_splits\<close>)
    qed
  qed
qed

text \<open>A whole call of a task that had nothing in hand.\<close>

lemma call_alone:
  assumes "calls ttl t is" "runs P is (sh_metrics s) c'" "sh_prog s t = []" "sh_held s = (\<lambda>l. None)"
  shows "shared_steps P ttl s (s\<lparr>sh_metrics := c'\<rparr>)"
proof -
  let ?s = "s\<lparr>sh_prog := (sh_prog s)(t := is)\<rparr>"
  have "shared_step P ttl s ?s" by (rule begins) (simp_all add: assms)
  moreover have "shared_steps P ttl ?s \<lparr>sh_metrics = c', sh_held = (\<lambda>l. None), sh_prog = (sh_prog ?s)(t := [])\<rparr>"
    by (rule solo [OF assms(2)]) (simp_all add: calls_disciplined [OF assms(1)] held_by_def assms(4))
  moreover have "\<lparr>sh_metrics = c', sh_held = (\<lambda>l. None), sh_prog = (sh_prog ?s)(t := [])\<rparr> = s\<lparr>sh_metrics := c'\<rparr>"
    using assms(3,4) by (cases s) (auto simp: fun_eq_iff)
  ultimately show ?thesis by (simp add: converse_rtranclp_into_rtranclp)
qed

section \<open>The calls are the operations\<close>

lemma arities_family: "arities_ok arity c \<longleftrightarrow> (\<forall>m. arity (family_of m c) = label_count m)"
proof
  assume "\<forall>m. arity (family_of m c) = label_count m"
  then have "arity (family_of m c) = label_count m" for m by blast
  note this [of Kills] this [of Kills_Per_Node] this [of Memory_Usage] this [of Last_Timestamp]
    this [of Resolution_Failures] this [of Events_Dropped] this [of Series_Evicted]
  then show "arities_ok arity c" by (simp add: arities_ok_def)
next
  assume *: "arities_ok arity c"
  show "\<forall>m. arity (family_of m c) = label_count m"
  proof
    fix m show "arity (family_of m c) = label_count m" using * by (cases m) (simp_all add: arities_ok_def)
  qed
qed

lemma family_of_on_family [simp]: "family_of m (on_family m' f c) = (if m = m' then f (family_of m c) else family_of m c)"
  by (cases m; cases m') simp_all

lemma on_family_other [simp]:
  "last_seen (on_family m f c) = last_seen c" "deleted_after (on_family m f c) = deleted_after c"
  "last_dropped_total (on_family m f c) = last_dropped_total c"
  by (cases m; simp)+

lemma on_family_on_family: "on_family m f (on_family m g c) = on_family m (\<lambda>v. f (g v)) c"
  by (cases m) simp_all

lemma on_family_cong: "f (family_of m c) = g (family_of m c) \<Longrightarrow> on_family m f c = on_family m g c"
  by (cases m) simp_all

definition record_rest :: "'v prom \<Rightarrow> enriched_oom_event \<Rightarrow> 'v collector \<Rightarrow> 'v collector" where
  "record_rest P ev c =
     (let key = event_key ev;
          c2 = on_family Kills_Per_Node (child_inc P [sk_node key]) c;
          c3 = on_family Memory_Usage (raise_gauges P key (en_raw_event ev)) c2;
          c4 = on_family Last_Timestamp (child_set P (labels key) (as_f64 (en_timestamp ev))) c3
      in c4\<lparr>last_seen := hm_insert key (en_timestamp ev) (last_seen c4)\<rparr>)"

lemma record_oom_event_rest:
  "record_oom_event P ev c = record_rest P ev (on_family Kills (child_inc P (labels (event_key ev))) c)"
  by (simp add: record_oom_event_def record_rest_def Let_def)

definition record_tail :: "enriched_oom_event \<Rightarrow> instr list" where
  "record_tail ev = drop 4 (record_prog ev)"

lemma record_prog_tail:
  "record_prog ev = child_call Kills (labels (event_key ev)) (Inc_By Kills (labels (event_key ev)) 1) @ record_tail ev"
  by (simp add: record_tail_def record_prog_def Let_def child_call_def)

lemma disciplined_tail: "disciplined {} (record_tail ev)"
  using calls_disciplined [OF calls.intros(1), of ev]
  by (simp add: record_prog_tail disciplined_calls)

context prom_vec
begin

lemma runs_inc_by:
  assumes "ok_arities c" "length ls = label_count m"
  shows "runs P (child_call m ls (Inc_By m ls d)) c (on_family m (child_inc_by P ls d) c)"
proof -
  have "pm_get P (pm_with P (family_of m c) ls) ls \<noteq> None"
    using assms by (simp add: arities_family get_with)
  then have "on_family m (\<lambda>v. if pm_get P v ls = None then v else pm_inc_by P v ls d) (on_family m (\<lambda>v. pm_with P v ls) c)
      = on_family m (child_inc_by P ls d) c"
    unfolding on_family_on_family by (intro on_family_cong) (simp only: child_inc_by_def if_False)
  then show ?thesis unfolding child_call_def by (simp add: runs_follow runs_done)
qed

lemma runs_inc:
  "ok_arities c \<Longrightarrow> length ls = label_count m \<Longrightarrow>
     runs P (child_call m ls (Inc_By m ls 1)) c (on_family m (child_inc P ls) c)"
  unfolding child_inc_def by (rule runs_inc_by)

lemma runs_set:
  assumes "ok_arities c" "length ls = label_count m"
  shows "runs P (child_call m ls (Set_To m ls x)) c (on_family m (child_set P ls x) c)"
proof -
  have "pm_get P (pm_with P (family_of m c) ls) ls \<noteq> None"
    using assms by (simp add: arities_family get_with)
  then have "on_family m (\<lambda>v. if pm_get P v ls = None then v else pm_set P v ls x) (on_family m (\<lambda>v. pm_with P v ls) c)
      = on_family m (child_set P ls x) c"
    unfolding on_family_on_family by (intro on_family_cong) (simp only: child_set_def if_False)
  then show ?thesis unfolding child_call_def by (simp add: runs_follow runs_done)
qed

lemma runs_raise:
  assumes "ok_arities c" "length ls = 5"
  shows "runs P (child_call Memory_Usage ls (Raise ls kb)) c (on_family Memory_Usage (raise_gauge P ls kb) c)"
proof -
  have "pm_get P (pm_with P (oom_memory_usage_bytes c) ls) ls \<noteq> None"
    using assms by (simp add: arities_ok_def get_with)
  then obtain old where "pm_get P (pm_with P (oom_memory_usage_bytes c) ls) ls = Some old" by blast
  then show ?thesis unfolding child_call_def
    by (auto intro!: runs_follow simp: runs_done raise_gauge_def Let_def)
qed

lemma on_family_arities:
  "ok_arities c \<Longrightarrow> arity (f (family_of m c)) = arity (family_of m c) \<Longrightarrow> ok_arities (on_family m f c)"
  by (simp add: arities_family)

lemma runs_raises:
  assumes "ok_arities c"
  shows "runs P (concat (map (\<lambda>(mt, kb). child_call Memory_Usage (memory_labels key mt) (Raise (memory_labels key mt) kb)) ps)) c
    (on_family Memory_Usage (fold (\<lambda>(mt, kb). raise_gauge P (memory_labels key mt) kb) ps) c)"
  using assms
proof (induction ps arbitrary: c)
  case Nil
  then show ?case by (simp add: runs_done)
next
  case (Cons p ps)
  obtain mt kb where p: "p = (mt, kb)" by (cases p)
  let ?c = "on_family Memory_Usage (raise_gauge P (memory_labels key mt) kb) c"
  have "ok_arities ?c" by (rule on_family_arities [OF Cons.prems]) simp
  from runs_append [OF runs_raise [OF Cons.prems] Cons.IH [OF this]] show ?case
    by (simp add: p)
qed

lemma runs_record_tail:
  assumes "ok_arities c"
  shows "runs P (record_tail ev) c (record_rest P ev c)"
proof -
  let ?key = "event_key ev"
  let ?c2 = "on_family Kills_Per_Node (child_inc P [sk_node ?key]) c"
  let ?c3 = "on_family Memory_Usage (raise_gauges P ?key (en_raw_event ev)) ?c2"
  let ?c4 = "on_family Last_Timestamp (child_set P (labels ?key) (as_f64 (en_timestamp ev))) ?c3"
  have c2: "ok_arities ?c2" by (rule on_family_arities [OF assms]) simp
  have c3: "ok_arities ?c3" by (rule on_family_arities [OF c2]) simp
  have "runs P [Acquire Last_Seen, Insert_Seen ?key (en_timestamp ev), Release Last_Seen] ?c4 (record_rest P ev c)"
    by (simp add: record_rest_def Let_def runs_follow runs_done)
  then have last: "runs P (child_call Last_Timestamp (labels ?key) (Set_To Last_Timestamp (labels ?key) (as_f64 (en_timestamp ev)))
      @ [Acquire Last_Seen, Insert_Seen ?key (en_timestamp ev), Release Last_Seen]) ?c3 (record_rest P ev c)"
    by (intro runs_append [OF runs_set [OF c3]]) simp_all
  have mem: "runs P (concat (map (\<lambda>(mt, kb). child_call Memory_Usage (memory_labels ?key mt) (Raise (memory_labels ?key mt) kb))
      (zip MEMORY_TYPES (memory_values (en_raw_event ev))))) ?c2 ?c3"
    using runs_raises [OF c2] by (simp add: raise_gauges_def [abs_def])
  from runs_append [OF runs_inc [OF assms, of "[sk_node ?key]" Kills_Per_Node] runs_append [OF mem last]] show ?thesis
    by (simp add: record_tail_def record_prog_def Let_def child_call_def)
qed

lemma runs_record:
  assumes "ok_arities c"
  shows "runs P (record_prog ev) c (record_oom_event P ev c)"
proof -
  let ?c1 = "on_family Kills (child_inc P (labels (event_key ev))) c"
  have "ok_arities ?c1" by (rule on_family_arities [OF assms]) simp
  from runs_append [OF runs_inc [OF assms, of "labels (event_key ev)" Kills] runs_record_tail [OF this]]
  show ?thesis by (simp add: record_prog_tail record_oom_event_rest)
qed

lemma runs_remove: "runs P (remove_call m ls) c (on_family m (\<lambda>v. pm_remove P v ls) c)"
  by (simp add: remove_call_def runs_follow runs_done)

lemma runs_removes:
  "runs P (concat (map (\<lambda>mt. remove_call Memory_Usage (memory_labels key mt)) mts)) c
    (on_family Memory_Usage (fold (\<lambda>mt v. pm_remove P v (memory_labels key mt)) mts) c)"
proof (induction mts arbitrary: c)
  case Nil
  then show ?case by (simp add: runs_done)
next
  case (Cons mt mts)
  have "runs P (remove_call Memory_Usage (memory_labels key mt)) c
      (on_family Memory_Usage (\<lambda>v. pm_remove P v (memory_labels key mt)) c)" by (rule runs_remove)
  from runs_append [OF this Cons] show ?case by (simp add: comp_def)
qed

lemma runs_remove_prog:
  assumes "ok_arities c"
  shows "runs P (remove_prog k orph) c (remove_series P k orph c)"
proof -
  let ?c2 = "on_family Last_Timestamp (\<lambda>v. pm_remove P v (labels k)) (on_family Kills (\<lambda>v. pm_remove P v (labels k)) c)"
  let ?c3 = "if orph then on_family Memory_Usage (fold (\<lambda>mt v. pm_remove P v (memory_labels k mt)) MEMORY_TYPES) ?c2 else ?c2"
  have c3: "ok_arities ?c3" using assms by (simp add: arities_ok_def)
  have mem: "runs P (if orph then concat (map (\<lambda>mt. remove_call Memory_Usage (memory_labels k mt)) MEMORY_TYPES) else []) ?c2 ?c3"
    using runs_removes [of k MEMORY_TYPES ?c2] runs_done [of P ?c2] by (simp split del: if_split) (cases orph; simp)
  have "runs P (remove_prog k orph) c (on_family Series_Evicted (child_inc P [sk_node k]) ?c3)"
    unfolding remove_prog_def
    by (intro runs_append [OF runs_remove] runs_append [OF mem] runs_inc c3) simp
  moreover have "on_family Series_Evicted (child_inc P [sk_node k]) ?c3 = remove_series P k orph c"
    by (simp add: remove_series_def Let_def)
  ultimately show ?thesis by simp
qed

lemma runs_evictions:
  "ok_arities c \<Longrightarrow> runs P (map Evict ks @ [Release Last_Seen]) c (remove_all P (orphaned_by (last_seen c)) ks c)"
proof (induction ks arbitrary: c)
  case Nil
  then show ?case by (simp add: runs_follow runs_done)
next
  case (Cons k ks)
  let ?c = "remove_series P k (orphaned_by (last_seen c) k) c"
  have "ok_arities ?c" "last_seen ?c = last_seen c"
    using remove_series_families(5) [OF Cons.prems] by (simp_all add: remove_series_other)
  with Cons.IH [of ?c] runs_append [OF runs_remove_prog [OF Cons.prems]] show ?case
    by (auto intro: runs_follow)
qed

lemma runs_sweep:
  assumes "ok_arities c"
  shows "runs P (sweep_prog now ttl) c (snd (evict_stale P now ttl c))"
proof -
  let ?d = "drain_due now c"
  let ?c = "scan_live now ttl (due_pods now c) ?d"
  have stale: "scan_stale now ttl (due_pods now c) ?d = stale_keys now ttl c"
    by (simp add: scan_stale_def stale_keys_def drain_due_def)
  have live: "?c = c\<lparr>deleted_after := hm_retain (\<lambda>pod removable_at. now < removable_at) (deleted_after c),
      last_seen := live_seen now ttl c\<rparr>"
    by (simp add: scan_live_def live_seen_def drain_due_def)
  have "ok_arities ?c" using assms by (simp add: live arities_ok_def)
  from runs_evictions [OF this, of "stale_keys now ttl c"]
  have "runs P (map Evict (stale_keys now ttl c) @ [Release Last_Seen]) ?c (snd (evict_stale P now ttl c))"
    by (simp add: live evict_stale_eq)
  then show ?thesis unfolding sweep_prog_def
    by (intro runs_follow) (simp add: Let_def stale runs_follow)
qed

text \<open>
  Run while no other task is inside a lock, a recording and a sweep are the operations of the
  sequential model.
\<close>

lemma recording_alone:
  assumes "ok_arities (sh_metrics s)" "sh_prog s Watch_Loop = []" "sh_held s = (\<lambda>l. None)"
  shows "shared_steps P ttl s (s\<lparr>sh_metrics := record_oom_event P ev (sh_metrics s)\<rparr>)"
  by (rule call_alone [OF calls.intros(1) runs_record]) (simp_all add: assms)

lemma sweep_alone:
  assumes "ok_arities (sh_metrics s)" "sh_prog s Sweeper = []" "sh_held s = (\<lambda>l. None)"
  shows "shared_steps P ttl s (s\<lparr>sh_metrics := snd (evict_stale P now ttl (sh_metrics s))\<rparr>)"
  by (rule call_alone [OF calls.intros(4) runs_sweep]) (simp_all add: assms)

end

end
