(* ===== verification/Concurrency.thy ===== *)
theory Concurrency
  imports Tasks
begin

text \<open>
  What holds of the shared collector under any interleaving of its tasks, statement by
  statement, and what does not: no series can leak and no set of tasks can block each other,
  but a recording that meets a sweep can lose its increment.
\<close>

section \<open>What survives interference\<close>

text \<open>The families whose children are kept per container, and whose series they are.\<close>

fun series_of :: "metric \<Rightarrow> series_key \<Rightarrow> string list \<Rightarrow> bool" where
  "series_of Kills k ls \<longleftrightarrow> ls = labels k"
| "series_of Last_Timestamp k ls \<longleftrightarrow> ls = labels k"
| "series_of Memory_Usage k ls \<longleftrightarrow> is_memory_series_of k ls"
| "series_of _ k ls \<longleftrightarrow> False"

definition per_container :: "metric \<Rightarrow> bool" where
  "per_container m \<longleftrightarrow> m \<in> {Kills, Last_Timestamp, Memory_Usage}"

text \<open>What the rest of a call still accounts for: keys it will insert, series it will remove.\<close>

fun inserted :: "instr list \<Rightarrow> series_key set" where
  "inserted [] = {}"
| "inserted (i # is) = (case i of Insert_Seen k t \<Rightarrow> insert k (inserted is) | _ \<Rightarrow> inserted is)"

fun condemns :: "metric \<Rightarrow> string list \<Rightarrow> instr \<Rightarrow> bool" where
  "condemns m ls (Remove m' ls') \<longleftrightarrow> m' = m \<and> ls' = ls"
| "condemns m ls (Evict k) \<longleftrightarrow> series_of m k ls"
| "condemns m ls _ \<longleftrightarrow> False"

definition accounted_by :: "'v collector \<Rightarrow> instr list \<Rightarrow> metric \<Rightarrow> string list \<Rightarrow> bool" where
  "accounted_by c is m ls \<longleftrightarrow>
     (\<exists>k \<in> tracked c \<union> inserted is. series_of m k ls) \<or> (\<exists>i \<in> set is. condemns m ls i)"

text \<open>Label values are as many as the family has labels; a child is created before it is tracked.\<close>

fun fits :: "instr \<Rightarrow> bool" where
  "fits (With m ls) \<longleftrightarrow> length ls = label_count m"
| "fits (Remove m ls) \<longleftrightarrow> length ls = label_count m"
| "fits _ \<longleftrightarrow> True"

fun tracked_later :: "instr list \<Rightarrow> bool" where
  "tracked_later [] \<longleftrightarrow> True"
| "tracked_later (i # is) \<longleftrightarrow>
     (case i of With m ls \<Rightarrow> per_container m \<longrightarrow> (\<exists>k \<in> inserted is. series_of m k ls) | _ \<Rightarrow> True)
     \<and> tracked_later is"

definition well_formed :: "instr list \<Rightarrow> bool" where
  "well_formed is \<longleftrightarrow> list_all fits is \<and> tracked_later is"

definition shared_ok :: "'v prom \<Rightarrow> ('v \<Rightarrow> nat) \<Rightarrow> 'v shared \<Rightarrow> bool" where
  "shared_ok P arity s \<longleftrightarrow>
     arities_ok arity (sh_metrics s) \<and> (\<forall>t. well_formed (sh_prog s t))
     \<and> (\<forall>m ls. per_container m \<longrightarrow> pm_get P (family_of m (sh_metrics s)) ls \<noteq> None
          \<longrightarrow> (\<exists>t. accounted_by (sh_metrics s) (sh_prog s t) m ls))"

lemma inserted_append [simp]: "inserted (xs @ ys) = inserted xs \<union> inserted ys"
  by (induction xs) (simp_all split: instr.split)

lemma inserted_mono: "set is \<subseteq> set js \<Longrightarrow> inserted is \<subseteq> inserted js"
proof -
  have "k \<in> inserted xs \<longleftrightarrow> (\<exists>t. Insert_Seen k t \<in> set xs)" for k and xs
    by (induction xs) (auto split: instr.splits)
  then show "set is \<subseteq> set js \<Longrightarrow> ?thesis" by blast
qed

lemma tracked_later_append:
  "(\<forall>m ls. With m ls \<in> set xs \<longrightarrow> \<not> per_container m) \<Longrightarrow> tracked_later (xs @ ys) = tracked_later ys"
  by (induction xs) (auto split: instr.splits)

lemma tracked_later_front:
  "tracked_later ys \<Longrightarrow>
     (\<And>m ls. With m ls \<in> set xs \<Longrightarrow> per_container m \<Longrightarrow> \<exists>k \<in> inserted ys. series_of m k ls) \<Longrightarrow>
     tracked_later (xs @ ys)"
  by (induction xs) (fastforce split: instr.splits)+

lemma accounted_mono:
  "accounted_by c is m ls \<Longrightarrow> tracked c \<subseteq> tracked c' \<Longrightarrow> set is \<subseteq> set js \<Longrightarrow> accounted_by c' js m ls"
  using inserted_mono [of "is" js] unfolding accounted_by_def by blast

lemma accounted_tracked: "k \<in> tracked c \<Longrightarrow> series_of m k ls \<Longrightarrow> accounted_by c is m ls"
  unfolding accounted_by_def by blast

lemma accounted_condemned: "i \<in> set is \<Longrightarrow> condemns m ls i \<Longrightarrow> accounted_by c is m ls"
  unfolding accounted_by_def by blast

lemma accountedE:
  fixes c :: "'v collector"
  assumes "accounted_by c is m ls"
  obtains k where "k \<in> tracked c" "series_of m k ls"
  | "\<And>(c' :: 'v collector) js. set is \<subseteq> set js \<Longrightarrow> accounted_by c' js m ls"
proof (cases "\<exists>k \<in> tracked c. series_of m k ls")
  case False
  have "accounted_by c' js m ls" if "set is \<subseteq> set js" for c' :: "'v collector" and js
    using False assms that inserted_mono [OF that] unfolding accounted_by_def by blast
  with that(2) show ?thesis .
qed (use that(1) in blast)

lemma accounted_tail:
  "accounted_by c (i # is) m ls \<Longrightarrow> (\<And>k t. i \<noteq> Insert_Seen k t) \<Longrightarrow> \<not> condemns m ls i \<Longrightarrow> accounted_by c is m ls"
  unfolding accounted_by_def by (cases i) (simp_all, blast+)

lemma well_formed_calls:
  assumes "calls ttl t is"
  shows "well_formed is"
  using assms
proof (cases rule: calls.cases)
  case (1 event)
  let ?k = "event_key event"
  let ?fin = "[Acquire Last_Seen, Insert_Seen ?k (en_timestamp event), Release Last_Seen]"
  obtain front where front: "record_prog event = front @ ?fin"
    and w: "\<And>m ls. With m ls \<in> set front \<Longrightarrow> per_container m \<Longrightarrow> series_of m ?k ls"
    and f: "list_all fits front"
  proof
    show "record_prog event = (child_call Kills (labels ?k) (Inc_By Kills (labels ?k) 1)
      @ child_call Kills_Per_Node [sk_node ?k] (Inc_By Kills_Per_Node [sk_node ?k] 1)
      @ concat (map (\<lambda>(memory_type, kilobytes).
            child_call Memory_Usage (memory_labels ?k memory_type) (Raise (memory_labels ?k memory_type) kilobytes))
          (zip MEMORY_TYPES (memory_values (en_raw_event event))))
      @ child_call Last_Timestamp (labels ?k) (Set_To Last_Timestamp (labels ?k) (as_f64 (en_timestamp event)))) @ ?fin"
      by (simp add: record_prog_def Let_def)
  qed (auto simp: child_call_def per_container_def is_memory_series_of_memory_labels MEMORY_TYPES_def memory_values_def)
  have "tracked_later (front @ ?fin)"
    by (rule tracked_later_front) (use w in \<open>auto simp:\<close>)
  with f show ?thesis by (simp add: 1 front well_formed_def)
next
  case (2 node outcome)
  then show ?thesis
    by (simp add: well_formed_def outcome_prog_def Let_def child_call_def per_container_def split: resolution_outcome.split)
qed (simp_all add: well_formed_def sweep_prog_def note_prog_def gather_prog_def)

context prom_vec
begin

lemma remove_prog_plain:
  "With m ls \<in> set (remove_prog k orph) \<Longrightarrow> \<not> per_container m"
  by (auto simp: remove_prog_def remove_call_def child_call_def per_container_def split: if_splits)

lemma exec_well_formed:
  assumes "exec P i c = (c', follow)" "well_formed (i # is)"
  shows "well_formed (follow @ is)"
proof -
  have "list_all fits follow" using assms(1)
    by (cases i)
       (auto simp: Let_def child_call_def remove_prog_def remove_call_def MEMORY_TYPES_def list_all_iff
          split: option.splits if_splits)
  moreover have "\<not> per_container m" if "With m ls \<in> set follow" for m ls
    using assms(1) that
    by (cases i) (auto simp: Let_def child_call_def per_container_def dest: remove_prog_plain split: option.splits if_splits)
  ultimately show ?thesis using assms(2) by (simp add: well_formed_def tracked_later_append)
qed

lemma exec_arities:
  assumes "exec P i c = (c', follow)" "ok_arities c"
  shows "ok_arities c'"
proof -
  have fam: "ok_arities (on_family m f c)" if "\<And>v. arity (f v) = arity v" for m f
    using that assms(2) by (intro on_family_arities) auto
  have "ok_arities (c\<lparr>last_seen := a\<rparr>)" "ok_arities (c\<lparr>deleted_after := b\<rparr>)" "ok_arities (c\<lparr>last_dropped_total := d\<rparr>)"
    for a b d using assms(2) by (simp_all add: arities_ok_def)
  with assms show ?thesis
    by (cases i) (auto simp: Let_def drain_due_def scan_live_def intro!: fam split: option.splits)
qed

lemma exec_children:
  assumes "exec P i c = (c', follow)" "ok_arities c" "fits i" "pm_get P (family_of m c') ls \<noteq> None"
  shows "i \<noteq> Remove m ls \<and> (i = With m ls \<or> pm_get P (family_of m c) ls \<noteq> None)"
proof -
  have ar: "arity (family_of m c) = label_count m" for m using assms(2) by (simp add: arities_family)
  have inc: "pm_get P (if pm_get P v ks = None then v else pm_inc_by P v ks d) ls \<noteq> None \<Longrightarrow> pm_get P v ls \<noteq> None" for v ks d
    by (cases "pm_get P v ks") (auto simp: get_inc_by split: if_splits)
  have put: "pm_get P (if pm_get P v ks = None then v else pm_set P v ks x) ls \<noteq> None \<Longrightarrow> pm_get P v ls \<noteq> None" for v ks x
    by (cases "pm_get P v ks") (auto simp: get_set split: if_splits)
  have same: "family_of m (c\<lparr>last_seen := a\<rparr>) = family_of m c" "family_of m (c\<lparr>deleted_after := b\<rparr>) = family_of m c"
    "family_of m (c\<lparr>last_dropped_total := d\<rparr>) = family_of m c" for a b d by (cases m; simp)+
  from assms(1,3,4) show ?thesis
    by (cases i)
       (auto simp: Let_def ar get_with get_remove get_inc_by get_set same drain_due_def scan_live_def
          dest: inc put split: if_splits option.splits)
qed

lemma exec_accounts:
  assumes "exec P i c = (c', follow)" "accounted_by c (i # is) m ls" "i \<noteq> Remove m ls"
  shows "accounted_by c' (follow @ is) m ls"
proof -
  have base: "accounted_by c' (follow @ is) m ls" if "tracked c' = tracked c" "accounted_by c is m ls"
    by (rule accounted_mono [OF that(2)]) (simp_all add: that(1))
  show ?thesis
proof (cases i)
  case (Insert_Seen k t)
  have "tracked c' = insert k (tracked c)" "follow = []" using assms(1) Insert_Seen hm_keys_insert [of k t "last_seen c"]
    by (simp_all del: hm_keys_insert add: eq_commute [of _ c'])
  then show ?thesis using assms(2) Insert_Seen unfolding accounted_by_def by simp
next
  case (Scan now ttl due)
  have c': "tracked c = tracked c' \<union> set (scan_stale now ttl due c)"
    using assms(1) Scan by (force simp: scan_live_def scan_stale_def set_hm_retain)
  have follow: "k \<in> set (scan_stale now ttl due c) \<Longrightarrow> Evict k \<in> set (follow @ is)" for k
    using assms(1) Scan by auto
  have "accounted_by c is m ls" using assms(2) Scan by (simp add: accounted_by_def)
  then show ?thesis
  proof (cases rule: accountedE)
    case (1 k)
    with c' follow [of k] show ?thesis
      by (auto intro: accounted_tracked [of k] accounted_condemned [of "Evict k"] simp del: image_iff)
  qed simp
next
  case (Evict k)
  have c': "c' = c" and follow: "follow = remove_prog k (orphaned_by (last_seen c) k)" using assms(1) Evict by auto
  have "accounted_by c (follow @ is) m ls" if "series_of m k ls"
  proof (cases m)
    case Memory_Usage
    show ?thesis
    proof (cases "orphaned_by (last_seen c) k")
      case True
      from that Memory_Usage obtain mt where "mt \<in> set MEMORY_TYPES" "ls = memory_labels k mt"
        by (auto simp: is_memory_series_of_def list_ex_iff)
      then have "Remove Memory_Usage ls \<in> set follow"
        by (auto simp: follow True remove_prog_def remove_call_def)
      then show ?thesis using Memory_Usage by (force simp: accounted_by_def)
    next
      case False
      then obtain l where "l \<in> tracked c" "shares_memory_series_with l k" by (auto simp: orphaned_by_iff)
      with that Memory_Usage is_memory_series_of_shares show ?thesis
        by (auto simp: accounted_by_def simp del: image_iff)
    qed
  next
    case Kills
    with that have "Remove m ls \<in> set follow" by (simp add: follow remove_prog_def remove_call_def)
    then show ?thesis by (force simp: accounted_by_def)
  next
    case Last_Timestamp
    with that have "Remove m ls \<in> set follow" by (simp add: follow remove_prog_def remove_call_def)
    then show ?thesis by (force simp: accounted_by_def)
  qed (use that in simp_all)
  with assms(2) show ?thesis unfolding c' Evict
    by (auto simp: accounted_by_def simp del: image_iff)
  qed ((rule base; (rule accounted_tail [OF assms(2)])?; use assms(1,3) in \<open>auto simp: Let_def drain_due_def split: option.splits\<close>)+)
qed

text \<open>Only a scan shortens what is tracked, and it goes on to evict what it dropped.\<close>

lemma exec_others_account:
  assumes "exec P i c = (c', follow)" "accounted_by c js m ls"
  shows "accounted_by c' js m ls \<or> accounted_by c' (follow @ is) m ls"
proof -
  have "tracked c \<subseteq> tracked c' \<union> {k. Evict k \<in> set follow}"
  proof (cases i)
    case (Insert_Seen k t)
    then show ?thesis using assms(1) hm_keys_insert [of k t "last_seen c"]
      by (auto simp del: hm_keys_insert simp: eq_commute [of _ c'])
  next
    case (Scan now ttl due)
    then show ?thesis using assms(1) by (force simp: scan_live_def scan_stale_def set_hm_retain)
  qed (use assms(1) in \<open>auto simp: Let_def drain_due_def split: option.splits\<close>)
  from assms(2) show ?thesis
  proof (cases rule: accountedE)
    case (1 k)
    with \<open>tracked c \<subseteq> _\<close> have "k \<in> tracked c' \<or> Evict k \<in> set follow" by blast
    with 1(2) show ?thesis
      by (auto intro: accounted_tracked [of k] accounted_condemned [of "Evict k"] simp del: image_iff)
  qed simp
qed

lemma shared_ok_rest:
  "shared_ok P arity (at_rest c) \<longleftrightarrow> ok_arities c
     \<and> (\<forall>m ls. per_container m \<longrightarrow> pm_get P (family_of m c) ls \<noteq> None \<longrightarrow> (\<exists>k \<in> tracked c. series_of m k ls))"
  by (simp add: shared_ok_def at_rest_def well_formed_def accounted_by_def)

lemma shared_ok_task_step:
  assumes "task_step P t s s'" "shared_ok P arity s"
  shows "shared_ok P arity s'"
proof -
  have wf: "well_formed (sh_prog s u)" for u using assms(2) by (simp add: shared_ok_def)
  have lock_op: "shared_ok P arity s'" if "sh_metrics s' = sh_metrics s" "sh_prog s t = i # is" "is_lock_op i"
    "sh_prog s' = (sh_prog s)(t := is)" for i "is"
  proof -
    have "well_formed is" using wf [of t] that(2,3) by (auto simp: well_formed_def)
    moreover have "accounted_by c is m ls" if "accounted_by c (i # is) m ls" for c m ls
      using that \<open>is_lock_op i\<close> by (auto simp: accounted_by_def simp del: image_iff)
    ultimately show ?thesis using assms(2) that unfolding shared_ok_def by (metis fun_upd_apply)
  qed
  from assms(1) show ?thesis
  proof (cases rule: task_step.cases)
    case (acquires l "is")
    then show ?thesis by (intro lock_op [of "Acquire l" "is"]) simp_all
  next
    case (releases l "is")
    then show ?thesis by (intro lock_op [of "Release l" "is"]) simp_all
  next
    case (executes i "is" c follow)
    have ok: "ok_arities (sh_metrics s)" and wfi: "well_formed (i # is)"
      using assms(2) wf [of t] executes(2) by (simp_all add: shared_ok_def)
    have "\<exists>u. accounted_by c (sh_prog s' u) m ls" if m: "per_container m" "pm_get P (family_of m c) ls \<noteq> None" for m ls
    proof -
      have fit: "fits i" using wfi by (simp add: well_formed_def)
      from exec_children [OF executes(4) ok fit m(2)] have kept: "i \<noteq> Remove m ls"
        and old: "i = With m ls \<or> pm_get P (family_of m (sh_metrics s)) ls \<noteq> None" by auto
      have "\<exists>u. accounted_by (sh_metrics s) (sh_prog s u) m ls"
      proof (cases "i = With m ls")
        case True
        with wfi m(1) have "accounted_by (sh_metrics s) (i # is) m ls"
          by (auto simp: well_formed_def accounted_by_def)
        then show ?thesis using executes(2) by metis
      next
        case False
        with old m(1) assms(2) show ?thesis unfolding shared_ok_def by blast
      qed
      then obtain u where u: "accounted_by (sh_metrics s) (sh_prog s u) m ls" by blast
      show ?thesis
      proof (cases "u = t")
        case True
        with exec_accounts [OF executes(4) _ kept] u executes(1,2) show ?thesis by auto
      next
        case False
        have "accounted_by c (sh_prog s u) m ls \<or> accounted_by c (follow @ is) m ls"
          using exec_others_account [OF executes(4) u] by blast
        with False executes(1) show ?thesis by (auto intro: exI [of _ u] exI [of _ t])
      qed
    qed
    moreover have "well_formed (sh_prog s' u)" for u
      using wf [of u] exec_well_formed [OF executes(4) wfi] executes(1) by simp
    moreover have "ok_arities c" by (rule exec_arities [OF executes(4) ok])
    ultimately show ?thesis using executes(1) by (simp add: shared_ok_def)
  qed
qed

lemma shared_ok_reachable:
  assumes "shared_steps P ttl (at_rest (collector_new P)) s"
  shows "shared_ok P arity s"
  using assms
proof (induction rule: rtranclp_induct)
  case base
  have "pm_get P (family_of m (collector_new P)) ls = None" for m ls by (cases m) (simp_all add: collector_new_facts)
  then show ?case by (simp add: shared_ok_rest collector_new_facts)
next
  case (step s s')
  from step(2) show ?case
  proof (cases rule: shared_step.cases)
    case (begins t "is")
    have "accounted_by c [] m ls \<Longrightarrow> accounted_by c is m ls" for c :: "'v collector" and m ls
      by (erule accounted_mono) simp_all
    with step(3) begins well_formed_calls [OF begins(3)] show ?thesis
      unfolding shared_ok_def by (auto; metis)
  next
    case (proceeds t)
    with step(3) shared_ok_task_step show ?thesis by blast
  qed
qed

end

lemma exec_guards:
  assumes "exec P i c = (c', follow)" "disciplined H (i # is)"
  shows "last_seen c' \<noteq> last_seen c \<Longrightarrow> Last_Seen \<in> H"
    and "deleted_after c' \<noteq> deleted_after c \<Longrightarrow> Deleted_After \<in> H"
  using assms by (cases i; force simp: Let_def drain_due_def scan_live_def split: option.splits)+

text \<open>What each lock guards.\<close>

lemma locks_ok_guards:
  assumes "prom_vec P arity" "locks_ok s" "task_step P t s s'"
  shows "(last_seen (sh_metrics s') \<noteq> last_seen (sh_metrics s) \<longrightarrow> sh_held s Last_Seen = Some t)
       \<and> (deleted_after (sh_metrics s') \<noteq> deleted_after (sh_metrics s) \<longrightarrow> sh_held s Deleted_After = Some t)
       \<and> (\<forall>m ls. (pm_get P (family_of m (sh_metrics s')) ls = None) \<noteq> (pm_get P (family_of m (sh_metrics s)) ls = None)
             \<longrightarrow> sh_held s (Family m) = Some t)
       \<and> (\<forall>u. \<not> (sh_held s Last_Seen = Some u \<and> sh_held s Deleted_After = Some u))"
proof -
  have d: "disciplined (held_by s t) (sh_prog s t)" using assms(2) by (simp add: locks_ok_def)
  from assms(3) show ?thesis
  proof (cases rule: task_step.cases)
    case (executes i "is" c follow)
    have inc: "(pm_get P (if pm_get P v ks = None then v else pm_inc_by P v ks x) ls = None) = (pm_get P v ls = None)" for v ks x ls
      by (cases "pm_get P v ks") (auto simp: prom_vec.get_inc_by [OF assms(1)])
    have put: "(pm_get P (if pm_get P v ks = None then v else pm_set P v ks x) ls = None) = (pm_get P v ls = None)" for v ks x ls
      by (cases "pm_get P v ks") (auto simp: prom_vec.get_set [OF assms(1)])
    have same: "family_of m (c\<lparr>last_seen := a\<rparr>) = family_of m c" "family_of m (c\<lparr>deleted_after := b\<rparr>) = family_of m c"
      "family_of m (c\<lparr>last_dropped_total := n\<rparr>) = family_of m c" for m a b n and c :: "'a collector" by (cases m; simp)+
    note e = executes(4,3) and d' = d [unfolded executes(2)]
    note exec_guards [OF executes(4) d']
    moreover have "Family m \<in> held_by s t"
      if "(pm_get P (family_of m c) ls = None) \<noteq> (pm_get P (family_of m (sh_metrics s)) ls = None)" for m ls
    proof (cases i)
      case (Inc_By m' ks x)
      have "c = on_family m' (\<lambda>v. if pm_get P v ks = None then v else pm_inc_by P v ks x) (sh_metrics s)"
        using e(1) Inc_By by simp
      with that inc show ?thesis by (cases "m = m'") simp_all
    next
      case (Set_To m' ks x)
      have "c = on_family m' (\<lambda>v. if pm_get P v ks = None then v else pm_set P v ks x) (sh_metrics s)"
        using e(1) Set_To by simp
      with that put show ?thesis by (cases "m = m'") simp_all
    next
      case (With m' ks)
      with e d' that show ?thesis by (auto split: if_splits)
    next
      case (Remove m' ks)
      with e d' that show ?thesis by (auto split: if_splits)
    qed (use e that in \<open>auto simp: Let_def drain_due_def scan_live_def same split: option.splits\<close>)
    ultimately show ?thesis using locks_apart [OF assms(2)] by (auto simp: executes(1) held_by_def)
  qed (use locks_apart [OF assms(2)] in simp_all)
qed

text \<open>
  (C6) No interleaving of the tasks, statement by statement, leaks a series: whenever all calls
  have come to their end, from whatever schedule of recordings, drop totals, sweeps, deletion
  notes and scrapes, every kill counter, timestamp and memory gauge belongs to a key in
  \<open>last_seen\<close>, so that a later sweep finds it.
\<close>

theorem no_interleaving_leaks_series:
  assumes "prom_vec P arity" "shared_steps P ttl (at_rest (collector_new P)) (at_rest c)"
  shows "(\<forall>ls. pm_get P (oom_kills_total c) ls \<noteq> None \<longrightarrow> ls \<in> labels ` tracked c)
       \<and> (\<forall>ls. pm_get P (oom_last_timestamp c) ls \<noteq> None \<longrightarrow> ls \<in> labels ` tracked c)
       \<and> (\<forall>ls. pm_get P (oom_memory_usage_bytes c) ls \<noteq> None
              \<longrightarrow> (\<exists>k \<in> tracked c. is_memory_series_of k ls))"
proof -
  have kept: "per_container m \<Longrightarrow> pm_get P (family_of m c) ls \<noteq> None \<Longrightarrow> \<exists>k \<in> tracked c. series_of m k ls" for m ls
    using prom_vec.shared_ok_reachable [OF assms] unfolding prom_vec.shared_ok_rest [OF assms(1)] by blast
  have "per_container Kills" "per_container Last_Timestamp" "per_container Memory_Usage"
    by (simp_all add: per_container_def)
  from this [THEN kept] show ?thesis unfolding series_of.simps family_of.simps by blast
qed

theorem no_interleaving_leaks_series_witness:
  "pm_get assoc_prom (oom_kills_total sample_collector) (labels (sample_key ''cid-9'')) = None"
proof -
  have "shared_steps assoc_prom 1800 (at_rest (collector_new assoc_prom)) (at_rest sample_collector)"
    using assoc.recording_alone [of "at_rest (collector_new assoc_prom)" 1800 "sample_event ''cid-1'' 1000"]
    by (simp add: sample_collector_def at_rest_def assoc.collector_new_facts)
  from no_interleaving_leaks_series [OF assoc.prom_vec_axioms this]
  have "pm_get assoc_prom (oom_kills_total sample_collector) (labels (sample_key ''cid-9'')) \<noteq> None
    \<longrightarrow> labels (sample_key ''cid-9'') \<in> labels ` tracked sample_collector" by simp
  then show ?thesis
    by (auto simp: sample_last_seen labels_def sample_key_def)
qed

text \<open>
  (C31) The locks cannot deadlock the tasks, nor can work in hand go on for ever: in every state
  that any interleaving reaches, the two mutexes and the locks of the seven families included,
  some task with a call in hand can take its next step; no schedule takes infinitely many steps
  without a new call being made; and so all calls in hand come to their end, with every lock
  given back.
\<close>

theorem tasks_never_deadlock:
  assumes "shared_steps P ttl (at_rest c0) s"
  shows "((\<exists>t. sh_prog s t \<noteq> []) \<longrightarrow> (\<exists>t s'. task_step P t s s'))
       \<and> \<not> (\<exists>f. f 0 = s \<and> (\<forall>n. \<exists>t. task_step P t (f n) (f (Suc n))))
       \<and> (\<exists>c. task_steps P s (at_rest c))"
proof (intro conjI)
  note ok = locks_ok_reachable [OF assms]
  show "(\<exists>t. sh_prog s t \<noteq> []) \<longrightarrow> (\<exists>t s'. task_step P t s s')"
    using someone_runs [OF ok] by (metis list.exhaust)
  show "\<not> (\<exists>f. f 0 = s \<and> (\<forall>n. \<exists>t. task_step P t (f n) (f (Suc n))))" using no_endless_work by blast
  show "\<exists>c. task_steps P s (at_rest c)" by (rule work_finishes [OF ok])
qed

text \<open>A sweep under way while a kill is being recorded.\<close>

definition busy :: "family shared" where
  "busy = (at_rest sample_collector)\<lparr>sh_prog := (\<lambda>t. [])(Watch_Loop := record_prog (sample_event ''cid-1'' 5), Sweeper := sweep_prog 9 1800)\<rparr>"

lemma busy_reached: "shared_steps assoc_prom 1800 (at_rest sample_collector) busy"
proof -
  let ?s = "(at_rest sample_collector)\<lparr>sh_prog := (sh_prog (at_rest sample_collector))
      (Watch_Loop := record_prog (sample_event ''cid-1'' 5))\<rparr>"
  have "shared_step assoc_prom 1800 (at_rest sample_collector) ?s"
    by (rule begins [OF _ calls.intros(1)]) (simp add: at_rest_def)
  moreover have "shared_step assoc_prom 1800 ?s (?s\<lparr>sh_prog := (sh_prog ?s)(Sweeper := sweep_prog 9 1800)\<rparr>)"
    by (rule begins [OF _ calls.intros(4)]) (simp add: at_rest_def)
  moreover have "?s\<lparr>sh_prog := (sh_prog ?s)(Sweeper := sweep_prog 9 1800)\<rparr> = busy"
    by (simp add: busy_def at_rest_def)
  ultimately show ?thesis by (metis converse_rtranclp_into_rtranclp rtranclp.rtrancl_refl)
qed

theorem tasks_never_deadlock_witness:
  "\<exists>c. task_steps assoc_prom busy (at_rest c)"
  using tasks_never_deadlock [OF busy_reached] by blast

text \<open>
  (C32) The bookkeeping is free of races: in every state that any interleaving reaches, a step
  changes \<open>last_seen\<close>, \<open>deleted_after\<close> or the set of a family's series only for the task that
  holds the lock of it; a mutex and the other are never held together; and while the sweeper
  holds \<open>last_seen\<close>, no step of another task changes what it tests for liveness.
\<close>

theorem bookkeeping_is_race_free:
  assumes "prom_vec P arity" "shared_steps P ttl (at_rest c0) s" "task_step P t s s'"
  shows "(last_seen (sh_metrics s') \<noteq> last_seen (sh_metrics s) \<longrightarrow> sh_held s Last_Seen = Some t)
       \<and> (deleted_after (sh_metrics s') \<noteq> deleted_after (sh_metrics s) \<longrightarrow> sh_held s Deleted_After = Some t)
       \<and> (\<forall>m ls. (pm_get P (family_of m (sh_metrics s')) ls = None) \<noteq> (pm_get P (family_of m (sh_metrics s)) ls = None)
             \<longrightarrow> sh_held s (Family m) = Some t)
       \<and> (\<forall>u. \<not> (sh_held s Last_Seen = Some u \<and> sh_held s Deleted_After = Some u))"
  using locks_ok_guards [OF assms(1) locks_ok_reachable [OF assms(2)] assms(3)] by blast

theorem bookkeeping_is_race_free_witness:
  "\<exists>s'. task_step assoc_prom Sweeper busy s' \<and> last_seen (sh_metrics s') = last_seen (sh_metrics busy)"
proof -
  have "sh_prog busy Sweeper = Acquire Deleted_After # [Drain 9 1800]" "sh_held busy Deleted_After = None"
    by (simp_all add: busy_def at_rest_def sweep_prog_def)
  from acquires [OF this, of assoc_prom] obtain s' where s': "task_step assoc_prom Sweeper busy s'" by blast
  have "sh_held busy Last_Seen = None" by (simp add: busy_def at_rest_def)
  with bookkeeping_is_race_free [OF assoc.prom_vec_axioms busy_reached s'] s' show ?thesis by auto
qed

section \<open>What does not\<close>

text \<open>The schedule: the first statement of a recording, a whole sweep, the other statements.\<close>

lemma sweep_after_first_stmt:
  assumes "prom_vec P arity" "arities_ok arity c"
    and c1_def: "c1 = on_family Kills (child_inc P (labels (event_key ev))) c"
    and c2_def: "c2 = snd (evict_stale P now ttl c1)"
  shows "shared_steps P ttl (at_rest c) (at_rest (record_rest P ev c2))"
proof -
  let ?ls = "labels (event_key ev)"
  let ?s = "\<lambda>c is. \<lparr>sh_metrics = c, sh_held = (\<lambda>l. None), sh_prog = (\<lambda>t. [])(Watch_Loop := is)\<rparr>"
  have c1: "arities_ok arity c1" unfolding c1_def
    by (rule prom_vec.on_family_arities [OF assms(1,2)]) (simp add: prom_vec.arity_child [OF assms(1)])
  then have c2: "arities_ok arity c2" unfolding c2_def by (rule prom_vec.evict_stale_families(5) [OF assms(1)])
  have idle: "(\<lambda>t. [])(Watch_Loop := []) = (\<lambda>t :: task. [] :: instr list)" by (simp add: fun_eq_iff)
  have "shared_steps P ttl (at_rest c) (?s c (record_prog ev))"
    using begins [of "at_rest c" Watch_Loop ttl "record_prog ev" P] calls.intros(1) by (auto simp: at_rest_def)
  also have "shared_steps P ttl (?s c (record_prog ev)) (?s c1 (record_tail ev))"
    using solo [OF prom_vec.runs_inc [OF assms(1,2), of ?ls Kills], of "?s c (record_prog ev)" Watch_Loop "record_tail ev" ttl]
    by (simp add: record_prog_tail c1_def held_by_def disciplined_child_call [of _ _ _ _ "[]", simplified])
  also have "shared_steps P ttl (?s c1 (record_tail ev)) (?s c2 (record_tail ev))"
    using prom_vec.sweep_alone [OF assms(1), of "?s c1 (record_tail ev)" ttl now] c1 by (simp add: c2_def)
  also have "shared_steps P ttl (?s c2 (record_tail ev)) (at_rest (record_rest P ev c2))"
    using solo [OF prom_vec.runs_record_tail [OF assms(1) c2, of ev], of "?s c2 (record_tail ev)" Watch_Loop "[]" ttl]
    by (simp add: at_rest_def held_by_def disciplined_tail idle)
  finally show ?thesis .
qed

text \<open>
  (C7) The lock that the sweep holds does not protect a recording: \<open>record_oom_event\<close> counts the
  kill before it takes the lock. For every container whose series are due, there is a schedule
  of one recording and one sweep after which the container is tracked although its kill counter
  does not exist: the increment is lost, and only the count per node has seen the kill.
\<close>

theorem racing_sweep_loses_kill:
  assumes "prom_vec P arity" "collector_reachable P c" "expired now ttl c (event_key ev)"
  shows "\<exists>c'. shared_steps P ttl (at_rest c) (at_rest c')
          \<and> event_key ev \<in> tracked c'
          \<and> pm_get P (oom_kills_total c') (labels (event_key ev)) = None
          \<and> oom_kills_per_node_total c' = child_inc P [sk_node (event_key ev)] (oom_kills_per_node_total c)"
proof -
  note ok = prom_vec.reachable_ok [OF assms(1,2)]
  let ?c1 = "on_family Kills (child_inc P (labels (event_key ev))) c"
  let ?c2 = "snd (evict_stale P now ttl ?c1)"
  let ?c' = "record_rest P ev ?c2"
  have a: "arities_ok arity ?c1"
    by (rule prom_vec.on_family_arities [OF assms(1) collector_okD(1) [OF ok]])
       (simp add: prom_vec.arity_child [OF assms(1)])
  have "stale_keys now ttl ?c1 = stale_keys now ttl c" by (simp add: stale_keys_def due_pods_def)
  moreover have "event_key ev \<in> set (stale_keys now ttl c)"
    unfolding stale_keys_expired [OF collector_okD(2) [OF ok] collector_okD(3) [OF ok]]
    using expired_tracked [OF assms(3)] assms(3) by (intro CollectI conjI)
  ultimately have "event_key ev \<in> set (stale_keys now ttl ?c1)" by (simp only:)
  then have "pm_get P (oom_kills_total ?c2) (labels (event_key ev)) = None"
    unfolding prom_vec.evict_stale_families(1) [OF assms(1) a] by simp
  then have "pm_get P (oom_kills_total ?c') (labels (event_key ev)) = None"
    by (simp add: record_rest_def Let_def)
  moreover have "event_key ev \<in> tracked ?c'" by (simp add: record_rest_def Let_def del: image_iff)
  moreover have "oom_kills_per_node_total ?c'
      = child_inc P [sk_node (event_key ev)] (oom_kills_per_node_total c)"
    by (simp add: record_rest_def Let_def evict_stale_other)
  ultimately show ?thesis
    using sweep_after_first_stmt [OF assms(1) collector_okD(1) [OF ok] refl refl] by blast
qed

theorem racing_sweep_loses_kill_witness:
  "\<exists>c'. shared_steps assoc_prom 1800 (at_rest sample_collector) (at_rest c')
      \<and> pm_get assoc_prom (oom_kills_total c') (labels (sample_key ''cid-1'')) = None"
proof -
  have "expired 3000 1800 sample_collector (event_key (sample_event ''cid-1'' 3000))"
    by (simp add: sample_simps expired_def)
  from racing_sweep_loses_kill [OF assoc.prom_vec_axioms sample_reachable this]
  show ?thesis by auto
qed

end
