(* ===== verification/Registration.thy ===== *)
theory Registration
  imports Eviction
begin

text \<open>
  The panics of \<open>oom-watcher/src/metrics.rs\<close>. \<open>MetricsCollector::new\<close> creates seven families and
  registers them, with \<open>expect\<close> on every result; afterwards \<open>with_label_values\<close> panics when it is
  given a number of values other than that of the family's labels. The registry and the
  constructors are the \<open>prometheus\<close> crate's, so their documented checks are the laws of an
  interface: a metric name and label names of the data model, a help text, no label twice, and
  no name registered twice.
\<close>

section \<open>Names of the data model\<close>

definition is_letter :: "char \<Rightarrow> bool" where
  "is_letter c \<longleftrightarrow> (let n = of_char c :: nat in 65 \<le> n \<and> n \<le> 90 \<or> 97 \<le> n \<and> n \<le> 122)"

definition is_digit :: "char \<Rightarrow> bool" where
  "is_digit c \<longleftrightarrow> (let n = of_char c :: nat in 48 \<le> n \<and> n \<le> 57)"

definition valid_name :: "char list \<Rightarrow> string \<Rightarrow> bool" where
  "valid_name extra s =
     (case s of
        [] \<Rightarrow> False
      | c # cs \<Rightarrow> (is_letter c \<or> c \<in> set extra) \<and> list_all (\<lambda>c. is_letter c \<or> is_digit c \<or> c \<in> set extra) cs)"

definition valid_metric_name :: "string \<Rightarrow> bool" where
  "valid_metric_name = valid_name ''_:''"

definition valid_label_name :: "string \<Rightarrow> bool" where
  "valid_label_name = valid_name ''_''"

definition valid_family :: "string \<Rightarrow> string \<Rightarrow> string list \<Rightarrow> bool" where
  "valid_family name help lnames \<longleftrightarrow>
     valid_metric_name name \<and> help \<noteq> [] \<and> list_all valid_label_name lnames \<and> distinct lnames"

section \<open>Creating and registering\<close>

datatype family_kind = Counter_Vec | Gauge_Vec

text \<open>The crate's fallible operations; an error is its debug rendering, which \<open>expect\<close> prints.\<close>

record ('v, 'r) registry_ops =
  ro_vec_new :: "family_kind \<Rightarrow> string \<Rightarrow> string \<Rightarrow> string list \<Rightarrow> string + 'v"
  ro_registry_new :: 'r
  ro_register :: "'r \<Rightarrow> 'v \<Rightarrow> string + 'r"

text \<open>\<open>result.expect(msg)\<close>: the panic message on the left.\<close>

definition expect :: "string \<Rightarrow> string + 'a \<Rightarrow> string + 'a" where
  "expect msg r = (case r of Inl e \<Rightarrow> Inl (msg @ '': '' @ e) | Inr x \<Rightarrow> Inr x)"

record family_spec =
  fs_kind :: family_kind
  fs_name :: string
  fs_help :: string
  fs_labels :: "string list"

definition FAMILIES :: "family_spec list" where
  "FAMILIES =
     [\<lparr>fs_kind = Counter_Vec, fs_name = ''oom_kills_total'',
       fs_help = ''Total number of OOM kills observed'', fs_labels = PER_CONTAINER_LABELS\<rparr>,
      \<lparr>fs_kind = Counter_Vec, fs_name = ''oom_kills_per_node_total'',
       fs_help = ''Total number of OOM kills per node'', fs_labels = [''node'']\<rparr>,
      \<lparr>fs_kind = Gauge_Vec, fs_name = ''oom_memory_usage_bytes'',
       fs_help = ''Peak memory usage in bytes observed at OOM kill, per memory type'',
       fs_labels = [''node'', ''namespace'', ''pod'', ''container'', ''memory_type'']\<rparr>,
      \<lparr>fs_kind = Gauge_Vec, fs_name = ''oom_last_timestamp'',
       fs_help = ''Timestamp of the last OOM kill event'', fs_labels = PER_CONTAINER_LABELS\<rparr>,
      \<lparr>fs_kind = Counter_Vec, fs_name = ''oom_resolution_failures_total'',
       fs_help = ''OOM events whose PID could not be resolved to a container, by reason'',
       fs_labels = [''node'', ''reason'']\<rparr>,
      \<lparr>fs_kind = Counter_Vec, fs_name = ''oom_events_dropped_total'',
       fs_help = ''OOM events the eBPF probe could not enqueue because the ring buffer was full'',
       fs_labels = [''node'']\<rparr>,
      \<lparr>fs_kind = Counter_Vec, fs_name = ''oom_series_evicted_total'',
       fs_help = ''Per-container metric series deleted after going stale, bounding cardinality'',
       fs_labels = [''node'']\<rparr>]"

fun create_families :: "('v, 'r) registry_ops \<Rightarrow> family_spec list \<Rightarrow> string + 'v list" where
  "create_families C [] = Inr []"
| "create_families C (f # fs) =
     (case expect (''Failed to create '' @ fs_name f @ '' metric'')
             (ro_vec_new C (fs_kind f) (fs_name f) (fs_help f) (fs_labels f)) of
        Inl p \<Rightarrow> Inl p
      | Inr v \<Rightarrow> (case create_families C fs of Inl p \<Rightarrow> Inl p | Inr vs \<Rightarrow> Inr (v # vs)))"

fun register_families :: "('v, 'r) registry_ops \<Rightarrow> 'r \<Rightarrow> (string \<times> 'v) list \<Rightarrow> string + 'r" where
  "register_families C r [] = Inr r"
| "register_families C r ((name, v) # vs) =
     (case expect (''Failed to register '' @ name) (ro_register C r v) of
        Inl p \<Rightarrow> Inl p
      | Inr r' \<Rightarrow> register_families C r' vs)"

definition metrics_collector_new :: "('v, 'r) registry_ops \<Rightarrow> string + ('r \<times> 'v collector)" where
  "metrics_collector_new C =
     (case create_families C FAMILIES of
        Inl p \<Rightarrow> Inl p
      | Inr vs \<Rightarrow>
          (case register_families C (ro_registry_new C) (zip (map fs_name FAMILIES) vs) of
             Inl p \<Rightarrow> Inl p
           | Inr r \<Rightarrow>
               Inr (r, \<lparr>oom_kills_total = vs ! 0, oom_kills_per_node_total = vs ! 1,
                        oom_memory_usage_bytes = vs ! 2, oom_last_timestamp = vs ! 3,
                        oom_resolution_failures_total = vs ! 4, oom_events_dropped_total = vs ! 5,
                        oom_series_evicted_total = vs ! 6,
                        last_dropped_total = 0, last_seen = [], deleted_after = []\<rparr>)))"

section \<open>The registry's interface\<close>

locale prom_registry =
  fixes C :: "('v, 'r) registry_ops"
    and P :: "'v prom"
    and vec_name :: "'v \<Rightarrow> string"
    and names :: "'r \<Rightarrow> string set"
  assumes vec_new: "ro_vec_new C kind name help lnames = Inr v \<longleftrightarrow>
      valid_family name help lnames \<and> v = pm_new P name lnames"
    and name_new: "vec_name (pm_new P name lnames) = name"
    and names_new: "names (ro_registry_new C) = {}"
    and register: "vec_name v \<notin> names r \<Longrightarrow> \<exists>r'. ro_register C r v = Inr r' \<and> names r' = insert (vec_name v) (names r)"
    and register_twice: "vec_name v \<in> names r \<Longrightarrow> \<exists>e. ro_register C r v = Inl e"
begin

lemma create_valid:
  "list_all (\<lambda>f. valid_family (fs_name f) (fs_help f) (fs_labels f)) fs \<Longrightarrow>
     create_families C fs = Inr (map (\<lambda>f. pm_new P (fs_name f) (fs_labels f)) fs)"
proof (induction fs)
  case Nil
  then show ?case by simp
next
  case (Cons f fs)
  then have "ro_vec_new C (fs_kind f) (fs_name f) (fs_help f) (fs_labels f) = Inr (pm_new P (fs_name f) (fs_labels f))"
    by (simp add: vec_new)
  with Cons show ?case by (simp add: expect_def)
qed

lemma register_fresh:
  "distinct (map vec_name vs) \<Longrightarrow> names r \<inter> set (map vec_name vs) = {} \<Longrightarrow> length ns = length vs \<Longrightarrow>
     \<exists>r'. register_families C r (zip ns vs) = Inr r' \<and> names r' = names r \<union> set (map vec_name vs)"
proof (induction vs arbitrary: ns r)
  case Nil
  then show ?case by simp
next
  case (Cons v vs)
  obtain n ns' where ns: "ns = n # ns'" using Cons.prems(3) by (cases ns) auto
  obtain r1 where r1: "ro_register C r v = Inr r1" "names r1 = insert (vec_name v) (names r)"
    using register [of v r] Cons.prems(2) by auto
  with Cons.IH [of r1 ns'] Cons.prems ns show ?case by (auto simp: expect_def)
qed

lemma collector_starts:
  assumes "list_all (\<lambda>f. valid_family (fs_name f) (fs_help f) (fs_labels f)) FAMILIES"
    and "distinct (map fs_name FAMILIES)"
  shows "\<exists>r. metrics_collector_new C = Inr (r, collector_new P) \<and> names r = set (map fs_name FAMILIES)"
proof -
  let ?vs = "map (\<lambda>f. pm_new P (fs_name f) (fs_labels f)) FAMILIES"
  have names: "map vec_name ?vs = map fs_name FAMILIES" by (simp add: name_new)
  from register_fresh [of ?vs "ro_registry_new C" "map fs_name FAMILIES", unfolded names] assms(2)
  obtain r where "register_families C (ro_registry_new C) (zip (map fs_name FAMILIES) ?vs) = Inr r"
    "names r = set (map fs_name FAMILIES)" by (auto simp: names_new)
  with create_valid [OF assms(1)] show ?thesis
    by (simp add: metrics_collector_new_def collector_new_def FAMILIES_def)
qed

end

lemma families_valid: "list_all (\<lambda>f. valid_family (fs_name f) (fs_help f) (fs_labels f)) FAMILIES"
  by (simp add: FAMILIES_def PER_CONTAINER_LABELS_def valid_family_def valid_metric_name_def
      valid_label_name_def valid_name_def is_letter_def is_digit_def)

lemma families_distinct: "distinct (map fs_name FAMILIES)"
  by (simp add: FAMILIES_def)

text \<open>A registry as the list of what was registered.\<close>

definition assoc_registry :: "(family, family list) registry_ops" where
  "assoc_registry =
     \<lparr>ro_vec_new = (\<lambda>kind name help lnames.
        if valid_family name help lnames then Inr (pm_new assoc_prom name lnames) else Inl ''Msg''),
      ro_registry_new = [],
      ro_register = (\<lambda>r v. if fam_name v \<in> set (map fam_name r) then Inl ''AlreadyReg'' else Inr (v # r))\<rparr>"

interpretation ar_registry: prom_registry assoc_registry assoc_prom fam_name "\<lambda>r. set (map fam_name r)"
  by unfold_locales (auto simp: assoc_registry_def assoc_prom_def)

section \<open>Label values\<close>

text \<open>
  The families with a flag that falls when a call names a child with the wrong number of label
  values: there \<open>with_label_values\<close> panics and \<open>remove_label_values\<close> is an error.
\<close>

definition guarded :: "'v prom \<Rightarrow> ('v \<Rightarrow> nat) \<Rightarrow> ('v \<times> bool) prom" where
  "guarded P arity =
     \<lparr>pm_new = (\<lambda>name lnames. (pm_new P name lnames, True)),
      pm_with = (\<lambda>(v, ok) ls. (pm_with P v ls, ok \<and> length ls = arity v)),
      pm_get = (\<lambda>(v, ok) ls. pm_get P v ls),
      pm_inc_by = (\<lambda>(v, ok) ls d. (pm_inc_by P v ls d, ok)),
      pm_set = (\<lambda>(v, ok) ls x. (pm_set P v ls x, ok)),
      pm_remove = (\<lambda>(v, ok) ls. (pm_remove P v ls, ok \<and> length ls = arity v))\<rparr>"

definition collector_families :: "'v collector \<Rightarrow> 'v list" where
  "collector_families c =
     [oom_kills_total c, oom_kills_per_node_total c, oom_memory_usage_bytes c, oom_last_timestamp c,
      oom_resolution_failures_total c, oom_events_dropped_total c, oom_series_evicted_total c]"

definition families_ok :: "('v \<times> bool) collector \<Rightarrow> bool" where
  "families_ok c \<longleftrightarrow> list_all snd (collector_families c)"

context prom_vec
begin

lemma guarded_laws: "prom_vec (guarded P arity) (\<lambda>v. arity (fst v))"
  by unfold_locales
     (auto simp: guarded_def get_new get_with get_inc_by get_set get_remove split: prod.splits)

lemma guarded_child [simp]:
  "snd (child_inc_by (guarded P arity) ls d v) \<longleftrightarrow> snd v \<and> length ls = arity (fst v)"
  "snd (child_inc (guarded P arity) ls v) \<longleftrightarrow> snd v \<and> length ls = arity (fst v)"
  "snd (child_set (guarded P arity) ls x v) \<longleftrightarrow> snd v \<and> length ls = arity (fst v)"
  "snd (pm_remove (guarded P arity) v ls) \<longleftrightarrow> snd v \<and> length ls = arity (fst v)"
  "arity (fst (pm_remove (guarded P arity) v ls)) = arity (fst v)"
  by (cases v, simp add: child_inc_def child_inc_by_def child_set_def guarded_def)+

lemma guarded_raise_gauge:
  "snd (raise_gauge (guarded P arity) ls kb v) \<longleftrightarrow> snd v \<and> length ls = arity (fst v)"
  "arity (fst (raise_gauge (guarded P arity) ls kb v)) = arity (fst v)"
  by (cases v; simp add: raise_gauge_def Let_def guarded_def split: option.split)+

lemma guarded_raise_gauges:
  "arity (fst v) = 5 \<Longrightarrow> snd (raise_gauges (guarded P arity) key raw v) = snd v"
  by (simp add: raise_gauges_def MEMORY_TYPES_def memory_values_def guarded_raise_gauge)

lemmas guarded_arity [simp] = prom_vec.arity_child [OF guarded_laws] prom_vec.arity_laws [OF guarded_laws]

lemma guarded_remove_series:
  "arities_ok (\<lambda>v. arity (fst v)) c \<Longrightarrow> families_ok c \<Longrightarrow>
     arities_ok (\<lambda>v. arity (fst v)) (remove_series (guarded P arity) key orphaned c)
     \<and> families_ok (remove_series (guarded P arity) key orphaned c)"
  by (simp add: remove_series_def Let_def arities_ok_def families_ok_def collector_families_def MEMORY_TYPES_def)

lemma guarded_removals:
  "arities_ok (\<lambda>v. arity (fst v)) c \<Longrightarrow> families_ok c \<Longrightarrow>
     families_ok (fold (\<lambda>key. remove_series (guarded P arity) key (f key)) ks c)"
  by (induction ks arbitrary: c) (simp_all add: guarded_remove_series)

lemma guarded_evict:
  assumes "arities_ok (\<lambda>v. arity (fst v)) c" "families_ok c"
  shows "families_ok (snd (evict_stale (guarded P arity) now ttl c))"
  unfolding evict_stale_def Let_def snd_conv
  by (rule guarded_removals)
     (use assms in \<open>simp_all add: arities_ok_def families_ok_def collector_families_def\<close>)

lemma guarded_reachable: "collector_reachable (guarded P arity) c \<Longrightarrow> families_ok c"
proof (induction rule: collector_reachable.induct)
  case reach_new
  then show ?case
    by (simp add: families_ok_def collector_families_def collector_new_def guarded_def)
next
  case (reach_event c ev)
  note a = collector_okD(1) [OF prom_vec.reachable_ok [OF guarded_laws reach_event(1)]]
  with reach_event(2) show ?case
    by (simp add: record_oom_event_def Let_def families_ok_def collector_families_def arities_ok_def
        guarded_raise_gauges)
next
  case (reach_outcome c node out)
  note a = collector_okD(1) [OF prom_vec.reachable_ok [OF guarded_laws reach_outcome(1)]]
  with reach_outcome(2) show ?case
    by (simp add: record_resolution_outcome_def Let_def families_ok_def collector_families_def arities_ok_def
        split: resolution_outcome.split)
next
  case (reach_dropped c node t)
  note a = collector_okD(1) [OF prom_vec.reachable_ok [OF guarded_laws reach_dropped(1)]]
  with reach_dropped(2) show ?case
    by (simp add: record_dropped_total_def Let_def families_ok_def collector_families_def arities_ok_def
        split: option.split)
next
  case (reach_deleted c ns pod now)
  then show ?case by (simp add: note_pod_deleted_def families_ok_def collector_families_def)
next
  case (reach_evict c now ttl)
  then show ?case
    using guarded_evict collector_okD(1) [OF prom_vec.reachable_ok [OF guarded_laws reach_evict(1)]] by blast
qed

end

text \<open>
  (C24) The collector never panics: against the registry's documented checks \<open>MetricsCollector::new\<close>
  creates and registers all seven families, and no sequence of recordings, outcomes, drop
  totals, deletions and sweeps ever names a child of any family with a number of label values
  other than that of the family's labels.
\<close>

theorem collector_never_panics:
  assumes "prom_registry C P vec_name names" "prom_vec P arity"
  shows "(\<exists>r. metrics_collector_new C = Inr (r, collector_new P) \<and> names r = set (map fs_name FAMILIES))
       \<and> (\<forall>c. collector_reachable (guarded P arity) c \<longrightarrow> list_all snd (collector_families c))"
  using prom_registry.collector_starts [OF assms(1) families_valid families_distinct]
    prom_vec.guarded_reachable [OF assms(2)]
  by (simp add: families_ok_def)

theorem collector_never_panics_witness:
  "(\<exists>r. metrics_collector_new assoc_registry = Inr (r, collector_new assoc_prom))
   \<and> list_all snd (collector_families
       (record_oom_event (guarded assoc_prom family_arity) (sample_event ''cid-1'' 1000)
         (collector_new (guarded assoc_prom family_arity))))"
  using collector_never_panics [OF ar_registry.prom_registry_axioms assoc.prom_vec_axioms]
    reach_event [OF reach_new] by blast

end
