(* ===== verification/Log.thy ===== *)
theory Log
  imports Events Rust_Str
begin

text \<open>
  \<open>log_event\<close> of \<open>oom-watcher/src/watch.rs\<close>: the lines written for an event, as the UTF-8 bytes
  that \<open>info!\<close> is given, with the checks of \<open>str::from_utf8\<close> on the 16 bytes of \<open>comm\<close>.
\<close>

section \<open>UTF-8\<close>

definition continues :: "u8 \<Rightarrow> bool" where
  "continues b \<longleftrightarrow> 0x80 \<le> b \<and> b \<le> 0xBF"

text \<open>
  How many bytes a scalar value takes that starts with this byte, and which second byte may
  follow: no overlong forms, no surrogates, nothing above \<open>U+10FFFF\<close>.
\<close>

definition scalar_width :: "u8 \<Rightarrow> nat" where
  "scalar_width b =
     (if b \<le> 0x7F then 1 else if 0xC2 \<le> b \<and> b \<le> 0xDF then 2
      else if 0xE0 \<le> b \<and> b \<le> 0xEF then 3 else if 0xF0 \<le> b \<and> b \<le> 0xF4 then 4 else 0)"

definition second_ok :: "u8 \<Rightarrow> u8 \<Rightarrow> bool" where
  "second_ok b c \<longleftrightarrow>
     (if b = 0xE0 then 0xA0 \<le> c \<and> c \<le> 0xBF else if b = 0xED then 0x80 \<le> c \<and> c \<le> 0x9F
      else if b = 0xF0 then 0x90 \<le> c \<and> c \<le> 0xBF else if b = 0xF4 then 0x80 \<le> c \<and> c \<le> 0x8F
      else continues c)"

text \<open>The width of the scalar value at the front; zero if there is no valid one.\<close>

fun leading :: "u8 list \<Rightarrow> nat" where
  "leading [] = 0"
| "leading (b # bs) =
     (if scalar_width b \<le> 1 then scalar_width b
      else case bs of
             [] \<Rightarrow> 0
           | c # cs \<Rightarrow>
               let rest = scalar_width b - 2 in
               if second_ok b c \<and> rest \<le> length cs \<and> list_all continues (take rest cs)
               then scalar_width b else 0)"

text \<open>Whether \<open>from_utf8\<close> accepts the bytes.\<close>

function utf8_ok :: "u8 list \<Rightarrow> bool" where
  "utf8_ok bs =
     (if bs = [] then True else if leading bs = 0 then False else utf8_ok (drop (leading bs) bs))"
  by pat_completeness auto

termination
  by (relation "measure length") auto

declare utf8_ok.simps [simp del]

lemma utf8_ok_Nil [simp]: "utf8_ok []"
  by (simp add: utf8_ok.simps)

lemma leading_le: "leading bs \<le> length bs"
  by (cases bs) (auto simp: Let_def split: list.split)

lemma leading_append: "leading p \<noteq> 0 \<Longrightarrow> leading (p @ q) = leading p"
  by (cases p) (auto simp: Let_def split: list.splits if_splits)

lemma utf8_ok_append: "utf8_ok p \<Longrightarrow> utf8_ok (p @ q) = utf8_ok q"
proof (induction p rule: utf8_ok.induct)
  case (1 p)
  show ?case
  proof (cases "p = []")
    case False
    with "1.prems" have p: "leading p \<noteq> 0" "utf8_ok (drop (leading p) p)"
      by (auto simp: utf8_ok.simps [of p] split: if_splits)
    with 1 False have "utf8_ok (drop (leading p) p @ q) = utf8_ok q" by blast
    with p False show ?thesis
      by (subst utf8_ok.simps) (simp add: leading_append leading_le)
  qed simp
qed

lemma second_continues: "second_ok b c \<Longrightarrow> continues c"
  by (auto simp: second_ok_def continues_def word_le_nat_alt split: if_splits)

lemma zero_width: "scalar_width 0 = 1" "\<not> continues 0"
  by (simp_all add: scalar_width_def continues_def)

lemma utf8_ok_zeros: "utf8_ok (replicate k 0)"
  by (induction k) (simp_all add: zero_width utf8_ok.simps [of "0 # _"])

text \<open>What is missing of a sequence is not made up by a byte that does not continue it.\<close>

lemma leading_stops:
  assumes "leading p = 0" "p \<noteq> []" "\<not> continues z"
  shows "leading (p @ z # q) = 0"
proof -
  obtain b bs where p: "p = b # bs" using assms(2) by (cases p) auto
  show ?thesis
  proof (cases bs)
    case Nil
    with p assms show ?thesis using second_continues [of b z] by (auto simp: Let_def)
  next
    case (Cons c cs)
    let ?m = "scalar_width b - 2"
    have "?m \<le> length cs" if "list_all continues (take ?m (cs @ z # q))"
    proof (rule ccontr)
      assume "\<not> ?m \<le> length cs"
      then have "z \<in> set (take ?m (cs @ z # q))" by (cases "?m - length cs") auto
      with that assms(3) show False by (auto simp: list_all_iff)
    qed
    then show ?thesis using assms(1) p Cons by (auto simp: Let_def split: if_splits)
  qed
qed

lemma utf8_ok_stops: "\<not> continues z \<Longrightarrow> utf8_ok (p @ z # q) \<longleftrightarrow> utf8_ok p \<and> utf8_ok (z # q)"
proof (induction p rule: utf8_ok.induct)
  case (1 p)
  show ?case
  proof (cases "p = []")
    case False
    show ?thesis
    proof (cases "leading p = 0")
      case True
      with False leading_stops [OF True False "1.prems", of q] show ?thesis
        by (subst (1 2) utf8_ok.simps) simp
    next
      case lead: False
      note ih = "1.IH" [OF False lead "1.prems"]
      have "utf8_ok (p @ z # q) = utf8_ok (drop (leading p) p @ z # q)"
        using lead False by (subst utf8_ok.simps) (simp add: leading_append leading_le)
      moreover have "utf8_ok p = utf8_ok (drop (leading p) p)"
        using lead False by (subst utf8_ok.simps) simp
      ultimately show ?thesis using ih by simp
    qed
  qed simp
qed

lemma utf8_ok_padded: "utf8_ok (name @ replicate k 0) \<longleftrightarrow> utf8_ok name"
proof (cases k)
  case (Suc n)
  have "utf8_ok (0 # replicate n 0)" using utf8_ok_zeros [of "Suc n"] by simp
  with Suc show ?thesis by (simp add: utf8_ok_stops zero_width)
qed simp

section \<open>The lines\<close>

text \<open>\<open>trim_end_matches('\0')\<close>.\<close>

definition trim_end_nul :: "u8 list \<Rightarrow> u8 list" where
  "trim_end_nul bs = rev (dropWhile (\<lambda>b. b = 0) (rev bs))"

definition to_str :: "u8 list \<Rightarrow> string" where
  "to_str bs = map (\<lambda>b. char_of (unat b)) bs"

definition comm_str :: "oom_kill_event \<Rightarrow> string" where
  "comm_str raw_event =
     (if utf8_ok (ev_comm raw_event) then to_str (trim_end_nul (ev_comm raw_event)) else ''?'')"

definition show_i16 :: "i16 \<Rightarrow> string" where
  "show_i16 w = (if sint w < 0 then ''-'' @ show_nat (nat (- sint w)) else show_nat (nat (sint w)))"

definition log_event :: "oom_kill_event \<Rightarrow> enriched_oom_event \<Rightarrow> string list" where
  "log_event raw_event enriched =
     [[CHR 0xF0, CHR 0x9F, CHR 0x9A, CHR 0xA8] @ '' OOM EVENT DETECTED:'',
      ''   Process: '' @ comm_str raw_event @ '' (PID: '' @ show_nat (unat (ev_pid raw_event)) @ '')'']
     @ (case en_namespace enriched of
          None \<Rightarrow> []
        | Some ns \<Rightarrow>
            [''   Kubernetes: '' @ ns
               @ ''/'' @ (case en_pod_name enriched of None \<Rightarrow> ''unknown'' | Some p \<Rightarrow> p)
               @ ''/'' @ (case en_container_name enriched of None \<Rightarrow> ''unknown'' | Some c \<Rightarrow> c)])
     @ [''   Memory: total-vm='' @ show_nat (unat (ev_total_vm raw_event))
          @ ''kB anon-rss='' @ show_nat (unat (ev_anon_rss raw_event))
          @ ''kB file-rss='' @ show_nat (unat (ev_file_rss raw_event))
          @ ''kB shmem-rss='' @ show_nat (unat (ev_shmem_rss raw_event)) @ ''kB'',
        ''   User: UID='' @ show_nat (unat (ev_uid raw_event))
          @ '' pgtables='' @ show_nat (unat (ev_pgtables raw_event))
          @ ''kB oom_score_adj='' @ show_i16 (ev_oom_score_adj raw_event)]"

lemma trim_end_nul_padded:
  "name = [] \<or> last name \<noteq> 0 \<Longrightarrow> trim_end_nul (name @ replicate k 0) = name"
  by (cases name rule: rev_cases) (simp_all add: trim_end_nul_def dropWhile_append)

text \<open>A name that ends within a scalar value.\<close>

definition cut_name :: "u8 list \<Rightarrow> bool" where
  "cut_name name \<longleftrightarrow>
     (\<exists>p sc j. name = p @ take j sc \<and> utf8_ok p \<and> leading sc = length sc \<and> 0 < j \<and> j < length sc)"

lemma leading_cut: "leading sc = length sc \<Longrightarrow> 0 < j \<Longrightarrow> j < length sc \<Longrightarrow> leading (take j sc) = 0"
  by (cases sc; cases "tl sc"; cases j; cases "j - 1")
     (auto simp: Let_def split: if_splits list.splits)

lemma cut_name_invalid:
  assumes "cut_name name"
  shows "\<not> utf8_ok name"
proof -
  obtain p sc j where n: "name = p @ take j sc" "utf8_ok p" "leading sc = length sc" "0 < j" "j < length sc"
    using assms by (auto simp: cut_name_def)
  from n(4,5) have "take j sc \<noteq> []" by (cases sc) auto
  with leading_cut [OF n(3-5)] have "\<not> utf8_ok (take j sc)" by (subst utf8_ok.simps) simp
  with utf8_ok_append [OF n(2), of "take j sc"] n(1) show ?thesis by simp
qed

text \<open>
  (C26) What the log says of a process: the 16 bytes that the kernel fills with the name and NULs
  are shown as the name without the NULs when it is valid UTF-8; one byte that is not makes
  the whole name \<open>?\<close>, and so does a long name that the kernel cut within a character. The
  identity line is there exactly for a resolved event.
\<close>

theorem log_shows_the_name:
  assumes "ev_comm raw = name @ replicate k 0" "name = [] \<or> last name \<noteq> 0"
  shows "log_event raw enriched ! 1
      = ''   Process: '' @ (if utf8_ok name then to_str name else ''?'')
          @ '' (PID: '' @ show_nat (unat (ev_pid raw)) @ '')''
    \<and> (cut_name name \<longrightarrow> log_event raw enriched ! 1 = ''   Process: ? (PID: '' @ show_nat (unat (ev_pid raw)) @ '')'')
    \<and> length (log_event raw enriched) = (if en_namespace enriched = None then 4 else 5)"
  using trim_end_nul_padded [OF assms(2), of k] cut_name_invalid [of name]
  by (auto simp: log_event_def comm_str_def assms(1) utf8_ok_padded split: option.split)

text \<open>A name of 15 bytes whose last one starts a two-byte character.\<close>

definition named_raw :: "u8 list \<Rightarrow> oom_kill_event" where
  "named_raw name =
     \<lparr>ev_pid = 7, ev_comm = name @ replicate (16 - length name) 0, ev_total_vm = 100, ev_anon_rss = 50,
      ev_file_rss = 10, ev_shmem_rss = 5, ev_uid = 1000, ev_pgtables = 2, ev_oom_score_adj = - 998\<rparr>"

definition unresolved :: "oom_kill_event \<Rightarrow> enriched_oom_event" where
  "unresolved raw =
     \<lparr>en_raw_event = raw, en_node_name = None, en_namespace = None, en_pod_name = None,
      en_container_name = None, en_container_id = None, en_image_id = None, en_timestamp = 0\<rparr>"

lemma cut_sample: "cut_name (replicate 14 0x61 @ [0xC3])"
proof -
  have "utf8_ok (replicate n 0x61)" for n
    by (induction n) (simp_all add: utf8_ok.simps [of "0x61 # _"] scalar_width_def)
  moreover have "leading [0xC3, 0xA9] = length [0xC3 :: u8, 0xA9]"
    by (simp add: scalar_width_def second_ok_def continues_def)
  ultimately show ?thesis
    unfolding cut_name_def by (intro exI [of _ "replicate 14 0x61"] exI [of _ "[0xC3, 0xA9]"] exI [of _ 1]) simp
qed

theorem log_shows_the_name_witness:
  "log_event (named_raw (replicate 14 0x61 @ [0xC3])) (unresolved (named_raw [])) ! 1 = ''   Process: ? (PID: 7)''"
proof -
  let ?name = "replicate 14 0x61 @ [0xC3] :: u8 list"
  have "ev_comm (named_raw ?name) = ?name @ replicate 1 0" "?name = [] \<or> last ?name \<noteq> 0"
    by (simp_all add: named_raw_def)
  note line = log_shows_the_name [OF this, THEN conjunct2, THEN conjunct1, THEN mp, OF cut_sample]
  have "show_nat (unat (ev_pid (named_raw ?name))) = ''7''"
    by (simp add: named_raw_def) code_simp
  then show ?thesis unfolding line by simp
qed

end
