(* ===== verification/Build.thy ===== *)
theory Build
  imports Rust_Str
begin

text \<open>
  The build scripts, \<open>oom-watcher/build.rs\<close> and \<open>oom-watcher-ebpf/build.rs\<close>. The environment, the
  file system and the nested \<open>cargo\<close> are parameters; a run of a script is the lines it prints,
  how it ended, and the files it left. Paths are strings, joined as \<open>PathBuf\<close> does; a file
  system is a map from paths to contents.
\<close>

section \<open>Paths and processes\<close>

type_synonym files = "string \<Rightarrow> string option"
type_synonym env = "string \<Rightarrow> string option" \<comment> \<open>\<open>env::var(name).ok()\<close>\<close>

abbreviation slash :: char where "slash \<equiv> CHR ''/''"

text \<open>\<open>dir.join(p)\<close>.\<close>

definition path_join :: "string \<Rightarrow> string \<Rightarrow> string" where
  "path_join dir p =
     (if p \<noteq> [] \<and> hd p = slash then p
      else if dir = [] \<or> last dir = slash then dir @ p
      else dir @ [slash] @ p)"

definition strip_slashes :: "string \<Rightarrow> string" where
  "strip_slashes p = rev (dropWhile (\<lambda>c. c = slash) (rev p))"

text \<open>\<open>path.parent()\<close>, for paths without \<open>.\<close> components.\<close>

definition path_parent :: "string \<Rightarrow> string option" where
  "path_parent p =
     (let name_off = rev (dropWhile (\<lambda>c. c \<noteq> slash) (rev (strip_slashes p))) in
      if strip_slashes p = [] then None
      else if name_off \<noteq> [] \<and> strip_slashes name_off = [] then Some [slash]
      else Some (strip_slashes name_off))"

record command =
  cmd_program :: string
  cmd_args :: "string list"
  cmd_env_removed :: "string list"
  cmd_dir :: string

record process_output =
  out_success :: bool
  out_stdout :: string \<comment> \<open>as \<open>from_utf8_lossy\<close> shows it\<close>
  out_stderr :: string

record host =
  h_spawn :: "command \<Rightarrow> files \<Rightarrow> (string + process_output) \<times> files" \<comment> \<open>\<open>cmd.output()\<close>\<close>
  h_copy_ok :: "string \<Rightarrow> string \<Rightarrow> bool"
  h_read_dir :: "files \<Rightarrow> string \<Rightarrow> string list option"
  h_debug :: "command \<Rightarrow> string" \<comment> \<open>\<open>{cmd:?}\<close>\<close>

datatype line = Out string | Err string

datatype ending = Finished | Panicked string

type_synonym script = "line list \<times> ending \<times> files"

definition warning :: "string \<Rightarrow> line" where
  "warning msg = Out (''cargo:warning='' @ msg)"

section \<open>The script of the watcher\<close>

definition ebpf_command :: "string \<Rightarrow> string \<Rightarrow> command" where
  "ebpf_command workspace_root ebpf_target_dir =
     \<lparr>cmd_program = ''cargo'',
      cmd_args = [''+nightly'', ''build'', ''--release'', ''--package'', ''oom-watcher-ebpf'', ''--target'',
        ''bpfel-unknown-none'', ''--target-dir'', ebpf_target_dir, ''-Z'', ''build-std=core''],
      cmd_env_removed = [''LD_LIBRARY_PATH'', ''RUSTC'', ''RUSTUP_TOOLCHAIN''],
      cmd_dir = workspace_root\<rparr>"

definition possible_paths :: "string \<Rightarrow> string list" where
  "possible_paths ebpf_target_dir =
     [path_join ebpf_target_dir ''bpfel-unknown-none/release/oom-watcher-ebpf'',
      ''../target/ebpf-subbuild/bpfel-unknown-none/release/oom-watcher-ebpf'',
      ''target/ebpf-subbuild/bpfel-unknown-none/release/oom-watcher-ebpf'']"

definition object_path :: "string \<Rightarrow> string" where
  "object_path out_dir = path_join out_dir ''oom-watcher-ebpf-object''"

text \<open>What follows the nested build: find the object and copy it.\<close>

definition install_object :: "host \<Rightarrow> string \<Rightarrow> string \<Rightarrow> files \<Rightarrow> script" where
  "install_object H out_dir ebpf_target_dir fs =
     (case find (\<lambda>p. fs p \<noteq> None) (possible_paths ebpf_target_dir) of
        Some ebpf_path \<Rightarrow>
          let found = warning (''Found eBPF binary at: '' @ ebpf_path);
              target_path = object_path out_dir
          in (if h_copy_ok H ebpf_path target_path
              then ([found, warning (''Copied eBPF object to: '' @ target_path)], Finished,
                    fs(target_path := fs ebpf_path))
              else ([found], Panicked (''Failed to copy '' @ ebpf_path @ '' to '' @ target_path), fs))
      | None \<Rightarrow>
          let ebpf_release_dir = path_join ebpf_target_dir ''bpfel-unknown-none/release/'' in
          ([warning ''Could not find eBPF binary in any of these locations:'']
             @ map (\<lambda>p. warning (''  '' @ p)) (possible_paths ebpf_target_dir)
             @ [warning (''Contents of '' @ ebpf_release_dir @ '':'')]
             @ (case h_read_dir H fs ebpf_release_dir of
                  None \<Rightarrow> []
                | Some entries \<Rightarrow> map (\<lambda>e. warning (''  '' @ e)) entries),
           Panicked ''eBPF binary not found'', fs))"

text \<open>\<open>unwrap\<close> of a variable that is not set; the panic message is the standard library's.\<close>

definition unset :: "line list \<Rightarrow> files \<Rightarrow> script" where
  "unset printed fs = (printed, Panicked ''called `Result::unwrap()` on an `Err` value: NotPresent'', fs)"

definition build_main :: "host \<Rightarrow> env \<Rightarrow> files \<Rightarrow> script" where
  "build_main H env fs =
     (if env ''OOM_WATCHER_SKIP_EBPF'' = Some ''1''
      then ([warning (''OOM_WATCHER_SKIP_EBPF=1 set '' @ [CHR 0xE2, CHR 0x80, CHR 0x94]
               @ '' skipping eBPF build in build.rs'')], Finished, fs)
      else if env ''CARGO_FEATURE_EBPF'' = None
      then ([warning (''eBPF feature disabled '' @ [CHR 0xE2, CHR 0x80, CHR 0x94]
               @ '' skipping eBPF build in build.rs'')], Finished, fs)
      else case env ''OUT_DIR'' of
        None \<Rightarrow> unset [] fs
      | Some out_dir \<Rightarrow>
          let lines1 = [Out ''cargo:rerun-if-changed=oom-watcher-ebpf/src''] in
          (case env ''CARGO_MANIFEST_DIR'' of
             None \<Rightarrow> unset lines1 fs
           | Some manifest \<Rightarrow>
               (case path_parent manifest of
                  None \<Rightarrow> (lines1, Panicked ''called `Option::unwrap()` on a `None` value'', fs)
                | Some workspace_root \<Rightarrow>
                    let ebpf_target_dir = path_join workspace_root ''target/ebpf-subbuild'';
                        cmd = ebpf_command workspace_root ebpf_target_dir;
                        lines2 = lines1 @ [warning ''Building eBPF program...'',
                                           warning (''Running command: '' @ h_debug H cmd)]
                    in (case h_spawn H cmd fs of
                          (Inl e, fs1) \<Rightarrow>
                            (lines2, Panicked (''Failed to execute eBPF build command: '' @ e), fs1)
                        | (Inr output, fs1) \<Rightarrow>
                            if \<not> out_success output
                            then (lines2 @ [Err ''eBPF build failed!'', Err (''stdout: '' @ out_stdout output),
                                            Err (''stderr: '' @ out_stderr output)],
                                  Panicked ''eBPF build failed'', fs1)
                            else case install_object H out_dir ebpf_target_dir fs1 of
                                   (lines3, res, fs2) \<Rightarrow>
                                     (lines2 @ [warning ''eBPF build completed successfully''] @ lines3, res, fs2)))))"

section \<open>The script of the probe\<close>

text \<open>
  \<open>which\<close> is a parameter (its path taken to be UTF-8, as \<open>to_str\<close> requires), and so is
  whether \<open>bindings.rs\<close> can be written (the message of a failed \<open>write\<close> ends in the error).
\<close>

definition ebpf_build_main :: "string option \<Rightarrow> (string \<Rightarrow> string option) \<Rightarrow> env \<Rightarrow> files \<Rightarrow> script" where
  "ebpf_build_main bpf_linker write_error env fs =
     (let printed = (case bpf_linker of None \<Rightarrow> [] | Some p \<Rightarrow> [Out (''cargo:rerun-if-changed='' @ p)])
            @ [Out ''cargo:rerun-if-changed=minimal_oom.h''] in
      case env ''OUT_DIR'' of
        None \<Rightarrow> unset printed fs
      | Some out \<Rightarrow>
          let bindings = path_join out ''bindings.rs'' in
          (case write_error bindings of
             Some e \<Rightarrow> (printed, Panicked (''called `Result::unwrap()` on an `Err` value: '' @ e), fs)
           | None \<Rightarrow> (printed, Finished, fs(bindings := Some (''// no bindings required'' @ [newline])))))"

section \<open>What a finished build leaves\<close>

lemma find_first_path:
  "fs (path_join dir ''bpfel-unknown-none/release/oom-watcher-ebpf'') \<noteq> None \<Longrightarrow>
     find (\<lambda>p. fs p \<noteq> None) (possible_paths dir) = Some (path_join dir ''bpfel-unknown-none/release/oom-watcher-ebpf'')"
  by (simp add: possible_paths_def)

definition wants_ebpf :: "env \<Rightarrow> bool" where
  "wants_ebpf env \<longleftrightarrow> env ''OOM_WATCHER_SKIP_EBPF'' \<noteq> Some ''1'' \<and> env ''CARGO_FEATURE_EBPF'' \<noteq> None"

lemma skipped_build_touches_nothing:
  "\<not> wants_ebpf env \<Longrightarrow> fst (snd (build_main H env fs)) = Finished \<and> snd (snd (build_main H env fs)) = fs"
  by (auto simp: build_main_def wants_ebpf_def)

lemma finished_build_installs:
  assumes "wants_ebpf env" "build_main H env fs = (printed, Finished, fs')"
  shows "\<exists>out_dir manifest root output fs1 p. env ''OUT_DIR'' = Some out_dir
      \<and> env ''CARGO_MANIFEST_DIR'' = Some manifest \<and> path_parent manifest = Some root
      \<and> h_spawn H (ebpf_command root (path_join root ''target/ebpf-subbuild'')) fs = (Inr output, fs1)
      \<and> out_success output
      \<and> find (\<lambda>p. fs1 p \<noteq> None) (possible_paths (path_join root ''target/ebpf-subbuild'')) = Some p
      \<and> fs' = fs1(object_path out_dir := fs1 p)"
  using assms
  by (auto simp: build_main_def wants_ebpf_def unset_def install_object_def Let_def
      split: option.splits sum.splits prod.splits if_splits)

end
