(* ===== verification/Tests_Kubernetes.thy ===== *)
theory Tests_Kubernetes
  imports Client
begin

text \<open>
  The tests of \<open>oom-watcher/src/kubernetes.rs\<close>, one definition for each under the name of the test,
  over the model of the functions they call. \<open>assert_eq\<close> is an equation, \<open>expect\<close> on an option
  or a result a case, the regular expressions are those of the leftmost-first semantics, and the
  reflector's store is the association list with the swap.
\<close>

section \<open>Container ids\<close>

definition VICTIM_ID :: string where
  "VICTIM_ID = ''3b2f1c8e9d4a5b6c7e8f9a0b1c2d3e4f5a6b7c8d9e0f1a2b3c4d5e6f7a8b9c0d''"

abbreviation extracted :: "string \<Rightarrow> string option" where
  "extracted \<equiv> extract_container_id leftmost_first"

definition supported_layouts :: "(string \<times> string) list" where
  "supported_layouts =
     [(''containerd + systemd (cgroup v2)'',
       ''0::/kubepods.slice/kubepods-burstable.slice/kubepods-burstable-poda1b2.slice/cri-containerd-'' @ VICTIM_ID @ ''.scope''),
      (''CRI-O + systemd'',
       ''0::/kubepods.slice/kubepods-besteffort.slice/kubepods-besteffort-poda1b2.slice/crio-'' @ VICTIM_ID @ ''.scope''),
      (''Docker + systemd'',
       ''0::/kubepods.slice/kubepods-burstable.slice/kubepods-burstable-poda1b2.slice/docker-'' @ VICTIM_ID @ ''.scope''),
      (''Docker + cgroupfs'', ''11:memory:/docker/'' @ VICTIM_ID),
      (''kubelet cgroupfs, burstable QoS'', ''11:memory:/kubepods/burstable/poda1b2-c3d4/'' @ VICTIM_ID),
      (''kubelet cgroupfs, guaranteed QoS (no QoS segment)'', ''11:memory:/kubepods/poda1b2-c3d4/'' @ VICTIM_ID)]"

definition extracts_the_container_id_from_every_supported_layout :: bool where
  "extracts_the_container_id_from_every_supported_layout \<longleftrightarrow>
     list_all (\<lambda>(label, cgroup). extracted cgroup = Some VICTIM_ID) supported_layouts"

definition extracts_from_a_multi_line_cgroup_v1_file :: bool where
  "extracts_from_a_multi_line_cgroup_v1_file \<longleftrightarrow>
     extracted (''12:pids:/kubepods/burstable/poda1b2/'' @ VICTIM_ID @ [newline]
       @ ''11:memory:/kubepods/burstable/poda1b2/'' @ VICTIM_ID @ [newline] @ ''0::/'' @ [newline]) = Some VICTIM_ID"

definition finds_nothing_for_a_process_outside_a_container :: bool where
  "finds_nothing_for_a_process_outside_a_container \<longleftrightarrow>
     extracted (''0::/system.slice/sshd.service'' @ [newline]) = None \<and> extracted (''0::/'' @ [newline]) = None"

definition ignores_hex_runs_that_are_not_container_ids :: bool where
  "ignores_hex_runs_that_are_not_container_ids \<longleftrightarrow>
     extracted (''0::/kubepods.slice/cri-containerd-'' @ replicate 63 (CHR ''a'') @ ''.scope'') = None
     \<and> extracted (''0::/kubepods.slice/cri-containerd-'' @ replicate 65 (CHR ''a'') @ ''.scope'') = None"

text \<open>The searches without the lists of all suffixes, which is what evaluates fast.\<close>

fun scan :: "(string \<Rightarrow> 'a option) \<Rightarrow> (char \<Rightarrow> bool) \<Rightarrow> string \<Rightarrow> 'a option" where
  "scan f p [] = f []"
| "scan f p (c # s) =
     (case f (c # s) of Some x \<Rightarrow> Some x | None \<Rightarrow> if p c then scan f p s else None)"

lemma find_map_tails_scan: "find_map f (tails s) = scan f (\<lambda>c. True) s"
  by (induction s) (auto split: option.split)

lemma find_map_lazily_scan: "find_map f (lazily p s) = scan f p s"
  by (induction s) (auto split: option.split)

lemma kubepods_id_scan:
  "kubepods_id s = Option.bind (strip_prefix ''/kubepods'' s) (\<lambda>r. scan slash_id (\<lambda>c. c \<noteq> newline) r)"
  by (simp add: kubepods_id_def find_map_lazily_scan)

lemma extracted_scan:
  "extracted s =
     (case scan runtime_id (\<lambda>c. True) s of Some w \<Rightarrow> Some w | None \<Rightarrow>
      case scan (\<lambda>s. Option.bind (strip_prefix ''/kubepods'' s) (\<lambda>r. scan slash_id (\<lambda>c. c \<noteq> newline) r)) (\<lambda>c. True) s of
        Some w \<Rightarrow> Some w
      | None \<Rightarrow> scan delimited_id (\<lambda>c. True) s)"
  unfolding perl.extract_eq find_map_tails_scan kubepods_id_scan [abs_def] by (simp split: option.split)

lemma every_layout:
  "extracts_the_container_id_from_every_supported_layout"
  unfolding extracts_the_container_id_from_every_supported_layout_def supported_layouts_def extracted_scan VICTIM_ID_def
  by code_simp

lemma multi_line_file:
  "extracts_from_a_multi_line_cgroup_v1_file"
  unfolding extracts_from_a_multi_line_cgroup_v1_file_def extracted_scan VICTIM_ID_def
  by code_simp

lemma no_container:
  "finds_nothing_for_a_process_outside_a_container"
  unfolding finds_nothing_for_a_process_outside_a_container_def extracted_scan
  by code_simp

lemma no_id:
  "ignores_hex_runs_that_are_not_container_ids"
  unfolding ignores_hex_runs_that_are_not_container_ids_def extracted_scan
  by code_simp

lemmas extraction_tests_pass = every_layout multi_line_file no_container no_id

section \<open>Pods\<close>

definition default_meta :: object_meta where
  "default_meta =
     \<lparr>om_name = None, om_namespace = None, om_uid = None, om_managed_fields = None, om_annotations = None\<rparr>"

definition status_named :: "string \<Rightarrow> string \<Rightarrow> string \<Rightarrow> container_status" where
  "status_named name container_id image_id =
     \<lparr>cs_name = name, cs_container_id = Some container_id, cs_image_id = image_id, cs_last_state = None\<rparr>"

definition restarted_container_status :: "string \<Rightarrow> string \<Rightarrow> string \<Rightarrow> container_status" where
  "restarted_container_status name container_id terminated_id =
     (status_named name container_id ''repo@sha256:abc'')
       \<lparr>cs_last_state := Some \<lparr>st_terminated = Some \<lparr>ct_container_id = Some terminated_id, ct_exit_code = 0\<rparr>\<rparr>\<rparr>"

definition pod_with_statuses :: "container_status list \<Rightarrow> pod" where
  "pod_with_statuses container_statuses =
     \<lparr>pod_metadata = default_meta\<lparr>om_namespace := Some ''prod'', om_name := Some ''api-7d9''\<rparr>,
      pod_spec = None, pod_status = Some \<lparr>ps_container_statuses = Some container_statuses\<rparr>\<rparr>"

definition pod_with :: "string \<Rightarrow> string \<Rightarrow> pod" where
  "pod_with container_id image_id = pod_with_statuses [status_named ''api'' container_id image_id]"

definition containerd :: "string \<Rightarrow> string" where
  "containerd cid = ''containerd://'' @ cid"

lemmas pod_fixtures =
  default_meta_def status_named_def restarted_container_status_def pod_with_statuses_def pod_with_def containerd_def

text \<open>\<open>identity_from_pods(..).expect(..)\<close> and then assertions on the identity.\<close>

definition expecting :: "container_identity option \<Rightarrow> (container_identity \<Rightarrow> bool) \<Rightarrow> bool" where
  "expecting r assertions = (case r of None \<Rightarrow> False | Some identity \<Rightarrow> assertions identity)"

definition carries_the_kubelet_prefixed_container_id_not_the_bare_cgroup_id :: bool where
  "carries_the_kubelet_prefixed_container_id_not_the_bare_cgroup_id \<longleftrightarrow>
     (let pods = [pod_with (containerd VICTIM_ID) ''repo@sha256:abc''] in
      expecting (identity_from_pods pods VICTIM_ID) (\<lambda>identity. ci_container_id identity = containerd VICTIM_ID))"

definition carries_the_image_id_verbatim :: bool where
  "carries_the_image_id_verbatim \<longleftrightarrow>
     list_all (\<lambda>image_id.
       expecting (identity_from_pods [pod_with (containerd VICTIM_ID) image_id] VICTIM_ID) (\<lambda>identity. ci_image_id identity = image_id))
       [''repo@sha256:2f1c8e9d4a5b6c7e'', ''docker-pullable://repo@sha256:2f1c8e9d4a5b6c7e'']"

definition resolves_a_container_whose_image_id_is_empty :: bool where
  "resolves_a_container_whose_image_id_is_empty \<longleftrightarrow>
     expecting (identity_from_pods [pod_with (containerd VICTIM_ID) []] VICTIM_ID)
       (\<lambda>identity. ci_image_id identity = [] \<and> ci_container_name identity = ''api'')"

definition resolves_the_pod_and_container_names_alongside_the_ids :: bool where
  "resolves_the_pod_and_container_names_alongside_the_ids \<longleftrightarrow>
     expecting (identity_from_pods [pod_with (containerd VICTIM_ID) ''repo@sha256:abc''] VICTIM_ID)
       (\<lambda>identity. ci_namespace identity = ''prod'' \<and> ci_pod_name identity = ''api-7d9''
          \<and> ci_container_name identity = ''api'')"

definition picks_the_matching_container_among_several_in_one_pod :: bool where
  "picks_the_matching_container_among_several_in_one_pod \<longleftrightarrow>
     (let other = replicate 64 (CHR ''a'');
          pods = [pod_with_statuses [status_named ''sidecar'' (containerd other) ''sidecar@sha256:1'',
                                     status_named ''api'' (containerd VICTIM_ID) ''api@sha256:2'']]
      in expecting (identity_from_pods pods VICTIM_ID)
           (\<lambda>identity. ci_container_name identity = ''api'' \<and> ci_image_id identity = ''api@sha256:2''))"

definition resolves_a_container_the_kubelet_has_already_replaced :: bool where
  "resolves_a_container_the_kubelet_has_already_replaced \<longleftrightarrow>
     (let pods = [pod_with_statuses [restarted_container_status ''api'' ''containerd://replacement'' (containerd VICTIM_ID)]] in
      expecting (identity_from_pods pods VICTIM_ID)
        (\<lambda>identity. ci_namespace identity = ''prod'' \<and> ci_pod_name identity = ''api-7d9''
           \<and> ci_container_name identity = ''api''))"

definition carries_the_dead_containers_id_not_its_replacement :: bool where
  "carries_the_dead_containers_id_not_its_replacement \<longleftrightarrow>
     (let dead = containerd VICTIM_ID;
          pods = [pod_with_statuses [restarted_container_status ''api'' ''containerd://replacement'' dead]]
      in expecting (identity_from_pods pods VICTIM_ID) (\<lambda>identity. ci_container_id identity = dead))"

definition prefers_a_running_container_over_a_terminated_one :: bool where
  "prefers_a_running_container_over_a_terminated_one \<longleftrightarrow>
     (let running = pod_with (containerd VICTIM_ID) ''repo@sha256:abc'';
          restarted = pod_with_statuses
            [restarted_container_status ''stale'' ''containerd://replacement'' (containerd VICTIM_ID)]
      in expecting (identity_from_pods [restarted, running] VICTIM_ID)
           (\<lambda>identity. ci_container_name identity = ''api'' \<and> ci_container_id identity = containerd VICTIM_ID))"

definition finds_nothing_when_neither_the_running_nor_the_terminated_container_matches :: bool where
  "finds_nothing_when_neither_the_running_nor_the_terminated_container_matches \<longleftrightarrow>
     identity_from_pods [pod_with_statuses
       [restarted_container_status ''api'' ''containerd://replacement'' ''containerd://someone-else'']] VICTIM_ID = None"

definition finds_nothing_when_no_container_on_the_node_matches :: bool where
  "finds_nothing_when_no_container_on_the_node_matches \<longleftrightarrow>
     identity_from_pods [pod_with (containerd (replicate 64 (CHR ''b''))) ''x@sha256:1''] VICTIM_ID = None"

definition finds_nothing_when_a_pod_has_no_container_statuses_yet :: bool where
  "finds_nothing_when_a_pod_has_no_container_statuses_yet \<longleftrightarrow>
     (let pending = \<lparr>pod_metadata = default_meta, pod_spec = None,
                     pod_status = Some \<lparr>ps_container_statuses = None\<rparr>\<rparr>;
          no_status = \<lparr>pod_metadata = default_meta, pod_spec = None, pod_status = None\<rparr>
      in identity_from_pods [pending, no_status] VICTIM_ID = None)"

text \<open>A reported id names a container whose bare id it ends in, and no other of the same length.\<close>

lemma names_prefixed [simp]: "names_container (containerd cid) cid"
  unfolding names_container_iff containerd_def by (rule sublist_append_leftI)

lemma not_names_VICTIM_ID:
  "\<not> names_container (containerd (replicate 64 (CHR ''a''))) VICTIM_ID"
  "\<not> names_container (containerd (replicate 64 (CHR ''b''))) VICTIM_ID"
  "\<not> names_container ''containerd://replacement'' VICTIM_ID"
  "\<not> names_container ''containerd://someone-else'' VICTIM_ID"
  unfolding VICTIM_ID_def containerd_def by code_simp+

lemmas matching_simps =
  identity_from_pods_def match_container_def match_status_def running_container_id_def terminated_container_id_def
  expecting_def not_names_VICTIM_ID

lemma pod_tests_pass:
  "carries_the_kubelet_prefixed_container_id_not_the_bare_cgroup_id"
  "carries_the_image_id_verbatim"
  "resolves_a_container_whose_image_id_is_empty"
  "resolves_the_pod_and_container_names_alongside_the_ids"
  "picks_the_matching_container_among_several_in_one_pod"
  "resolves_a_container_the_kubelet_has_already_replaced"
  "carries_the_dead_containers_id_not_its_replacement"
  "prefers_a_running_container_over_a_terminated_one"
  "finds_nothing_when_neither_the_running_nor_the_terminated_container_matches"
  "finds_nothing_when_no_container_on_the_node_matches"
  "finds_nothing_when_a_pod_has_no_container_statuses_yet"
  by (simp_all add: carries_the_kubelet_prefixed_container_id_not_the_bare_cgroup_id_def
      carries_the_image_id_verbatim_def resolves_a_container_whose_image_id_is_empty_def
      resolves_the_pod_and_container_names_alongside_the_ids_def
      picks_the_matching_container_among_several_in_one_pod_def
      resolves_a_container_the_kubelet_has_already_replaced_def
      carries_the_dead_containers_id_not_its_replacement_def
      prefers_a_running_container_over_a_terminated_one_def
      finds_nothing_when_neither_the_running_nor_the_terminated_container_matches_def
      finds_nothing_when_no_container_on_the_node_matches_def
      finds_nothing_when_a_pod_has_no_container_statuses_yet_def
      default_meta_def status_named_def restarted_container_status_def pod_with_statuses_def pod_with_def
      matching_simps)

section \<open>The cache\<close>

text \<open>\<open>Writer::apply_watcher_event\<close>, and the store behind the cache.\<close>

abbreviation apply_watcher_event :: "watch_event \<Rightarrow> assoc_store \<Rightarrow> assoc_store" where
  "apply_watcher_event \<equiv> so_apply assoc_reflector"

abbreviation looked_up :: "assoc_store \<Rightarrow> string + container_identity option" where
  "looked_up s \<equiv> identity_of assoc_reflector s VICTIM_ID"

definition victim_pod :: pod where
  "victim_pod = pod_with (containerd VICTIM_ID) ''repo@sha256:abc''"

definition sync_store :: "pod list \<Rightarrow> assoc_store \<Rightarrow> assoc_store" where
  "sync_store pods s = apply_watcher_event InitDone (fold (\<lambda>pod. apply_watcher_event (InitApply pod)) pods (apply_watcher_event Init s))"

definition is_error :: "string + 'a \<Rightarrow> bool" where
  "is_error r = (case r of Inl e \<Rightarrow> True | Inr x \<Rightarrow> False)"

definition resolves_a_container_from_the_cache :: bool where
  "resolves_a_container_from_the_cache \<longleftrightarrow>
     (case looked_up (sync_store [victim_pod] assoc_store_new) of
        Inr (Some identity) \<Rightarrow> ci_pod_name identity = ''api-7d9'' \<and> ci_container_id identity = containerd VICTIM_ID
      | _ \<Rightarrow> False)"

definition a_synced_cache_that_does_not_hold_the_container_is_a_miss_not_an_error :: bool where
  "a_synced_cache_that_does_not_hold_the_container_is_a_miss_not_an_error \<longleftrightarrow>
     looked_up (sync_store [pod_with (containerd (replicate 64 (CHR ''b''))) ''x@sha256:1''] assoc_store_new) = Inr None"

definition an_unsynced_cache_is_an_error_not_a_miss :: bool where
  "an_unsynced_cache_is_an_error_not_a_miss \<longleftrightarrow>
     is_error (looked_up assoc_store_new)
     \<and> is_error (looked_up (apply_watcher_event (InitApply victim_pod) (apply_watcher_event Init assoc_store_new)))"

definition a_lookup_starts_working_once_a_late_cache_syncs :: bool where
  "a_lookup_starts_working_once_a_late_cache_syncs \<longleftrightarrow>
     is_error (looked_up assoc_store_new)
     \<and> (case looked_up (sync_store [victim_pod] assoc_store_new) of Inr (Some i) \<Rightarrow> True | _ \<Rightarrow> False)"

definition a_container_that_starts_after_the_initial_list_resolves :: bool where
  "a_container_that_starts_after_the_initial_list_resolves \<longleftrightarrow>
     (let s = sync_store [] assoc_store_new in
      looked_up s = Inr None
      \<and> (case looked_up (apply_watcher_event (Apply victim_pod) s) of Inr (Some i) \<Rightarrow> True | _ \<Rightarrow> False))"

definition a_deleted_pod_stops_resolving :: bool where
  "a_deleted_pod_stops_resolving \<longleftrightarrow>
     (let s = sync_store [victim_pod] assoc_store_new in looked_up (apply_watcher_event (Delete victim_pod) s) = Inr None)"

text \<open>
  The waits, with the latch second by second. In the second test the list is written after the
  waiter has parked, so the wait ends no earlier than that; a timeout of a millisecond is over
  within the first second.
\<close>

definition waiting_returns_at_once_when_the_cache_is_already_synced :: bool where
  "waiting_returns_at_once_when_the_cache_is_already_synced \<longleftrightarrow>
     (let s = sync_store [victim_pod] assoc_store_new in
      wait_until_synced (\<lambda>t. so_latch assoc_reflector s) 30 = 0
      \<and> (case looked_up s of Inr (Some i) \<Rightarrow> True | _ \<Rightarrow> False))"

definition waiting_returns_only_after_the_list_lands :: bool where
  "waiting_returns_only_after_the_list_lands \<longleftrightarrow>
     (let listed = 1;
          store_at = (\<lambda>t. if t < listed then assoc_store_new else sync_store [victim_pod] assoc_store_new)
      in listed \<le> wait_until_synced (\<lambda>t. so_latch assoc_reflector (store_at t)) 30
         \<and> (case looked_up (store_at listed) of Inr (Some i) \<Rightarrow> True | _ \<Rightarrow> False))"

definition waiting_gives_up_rather_than_blocking_the_watch_loop_forever :: bool where
  "waiting_gives_up_rather_than_blocking_the_watch_loop_forever \<longleftrightarrow>
     wait_until_synced (\<lambda>t. so_latch assoc_reflector assoc_store_new) 1 = 1
     \<and> is_error (looked_up assoc_store_new)"

definition pruning_keeps_everything_resolution_reads :: bool where
  "pruning_keeps_everything_resolution_reads \<longleftrightarrow>
     (let pod = victim_pod\<lparr>pod_spec := Some ''node-1'',
                  pod_metadata := (pod_metadata victim_pod)
                    \<lparr>om_managed_fields := Some [[]],
                     om_annotations := Some [(''kubectl.kubernetes.io/last-applied-configuration'', ''{}'')]\<rparr>\<rparr>
      in case (identity_from_pods [pod] VICTIM_ID, identity_from_pods [prune_for_cache pod] VICTIM_ID) of
           (Some full, Some pruned) \<Rightarrow> full = pruned
         | _ \<Rightarrow> False)"

lemmas cache_simps =
  sync_store_def assoc_reflector_def assoc_store_new_def identity_of_def ensure_synced_def is_error_def
  victim_pod_def pod_key_def matching_simps

lemma cache_tests_pass:
  "resolves_a_container_from_the_cache"
  "a_synced_cache_that_does_not_hold_the_container_is_a_miss_not_an_error"
  "an_unsynced_cache_is_an_error_not_a_miss"
  "a_lookup_starts_working_once_a_late_cache_syncs"
  "a_container_that_starts_after_the_initial_list_resolves"
  "a_deleted_pod_stops_resolving"
  "waiting_returns_at_once_when_the_cache_is_already_synced"
  "waiting_returns_only_after_the_list_lands"
  "waiting_gives_up_rather_than_blocking_the_watch_loop_forever"
  "pruning_keeps_everything_resolution_reads"
  by (simp_all add: resolves_a_container_from_the_cache_def
      a_synced_cache_that_does_not_hold_the_container_is_a_miss_not_an_error_def
      an_unsynced_cache_is_an_error_not_a_miss_def a_lookup_starts_working_once_a_late_cache_syncs_def
      a_container_that_starts_after_the_initial_list_resolves_def a_deleted_pod_stops_resolving_def
      waiting_returns_at_once_when_the_cache_is_already_synced_def waiting_returns_only_after_the_list_lands_def
      waiting_gives_up_rather_than_blocking_the_watch_loop_forever_def
      pruning_keeps_everything_resolution_reads_def wait_until_synced_def upt_conv_Cons prune_for_cache_def
      default_meta_def status_named_def pod_with_statuses_def pod_with_def cache_simps)

end
