(* ===== verification/Tests_Watch.thy ===== *)
theory Tests_Watch
  imports Watch Http Tracepoint
begin

text \<open>
  The tests of \<open>watch.rs\<close>, \<open>health.rs\<close>, \<open>http.rs\<close>, \<open>resolve.rs\<close>, \<open>enrich.rs\<close> and \<open>tracepoint.rs\<close> of
  \<open>oom-watcher/src\<close>, one definition for each under the name of the test, over the model. A run of
  the loop over a finite source gets more turns than it has events, and all clocks read \<open>CLOCK\<close>.
\<close>

section \<open>The watch loop\<close>

definition CLOCK :: u64 where
  "CLOCK = 1717000000"

definition test_identity :: container_identity where
  "test_identity =
     \<lparr>ci_namespace = ''prod'', ci_pod_name = ''api-7d9'', ci_container_name = ''api'',
      ci_container_id = ''containerd://abc123'', ci_image_id = ''repo@sha256:def456''\<rparr>"

definition source_of :: "oom_kill_event list \<Rightarrow> vec_source" where
  "source_of events = \<lparr>vs_events = events, vs_drops = None\<rparr>"

definition source_reporting_drops :: "oom_kill_event list \<Rightarrow> u64 \<Rightarrow> vec_source" where
  "source_reporting_drops events drops = \<lparr>vs_events = events, vs_drops = Some drops\<rparr>"

definition clock_turn :: "(unit, unit) turn" where
  "clock_turn = \<lparr>tn_beat_first = False, tn_env = (), tn_world = (), tn_event_clock = CLOCK, tn_beat_clock = CLOCK\<rparr>"

definition resolver_with :: "string \<Rightarrow> behavior \<Rightarrow> unit resolver option" where
  "resolver_with node behavior = Some (fake_resolver node behavior)"

text \<open>\<open>run(..).await\<close> to its end: the spy, and the stamps of the heartbeat.\<close>

definition ran :: "vec_source \<Rightarrow> unit resolver option \<Rightarrow> run_end \<times> spy \<times> u64 list" where
  "ran s resolver =
     (case run vec_source_ops spy_recorder resolver (\<lambda>at stamps. stamps @ [at])
             (replicate (Suc (length (vs_events s))) clock_turn) s spy_new [] of
        (e, s', spy, stamps) \<Rightarrow> (e, spy, stamps))"

definition run_spy :: "vec_source \<Rightarrow> unit resolver option \<Rightarrow> spy" where
  "run_spy s resolver = fst (snd (ran s resolver))"

definition enriches_and_records_a_resolved_event :: bool where
  "enriches_and_records_a_resolved_event \<longleftrightarrow>
     (let spy = run_spy (source_of [test_raw 1234]) (resolver_with ''node-1'' (Behave_found test_identity));
          e = hd (sp_events spy)
      in length (sp_events spy) = 1
         \<and> en_node_name e = Some ''node-1'' \<and> en_namespace e = Some ''prod'' \<and> en_pod_name e = Some ''api-7d9''
         \<and> en_container_name e = Some ''api'' \<and> ev_pid (en_raw_event e) = 1234 \<and> en_timestamp e = CLOCK
         \<and> sp_outcomes spy = [(''node-1'', ''found'')])"

definition keeps_node_but_no_identity_when_not_found :: bool where
  "keeps_node_but_no_identity_when_not_found \<longleftrightarrow>
     (let spy = run_spy (source_of [test_raw 1]) (resolver_with ''node-1'' Behave_not_found);
          e = hd (sp_events spy)
      in en_node_name e = Some ''node-1'' \<and> en_namespace e = None \<and> en_container_id e = None
         \<and> sp_outcomes spy = [(''node-1'', ''not_found'')])"

definition records_failure_outcome_and_keeps_node :: bool where
  "records_failure_outcome_and_keeps_node \<longleftrightarrow>
     (let spy = run_spy (source_of [test_raw 1]) (resolver_with ''node-1'' Behave_fail);
          e = hd (sp_events spy)
      in en_node_name e = Some ''node-1'' \<and> en_namespace e = None
         \<and> sp_outcomes spy = [(''node-1'', ''error'')])"

definition standalone_mode_has_no_node_and_records_no_outcome :: bool where
  "standalone_mode_has_no_node_and_records_no_outcome \<longleftrightarrow>
     (let spy = run_spy (source_of [test_raw 1]) None in
      en_node_name (hd (sp_events spy)) = None \<and> sp_outcomes spy = [])"

definition reports_the_sources_drop_total_alongside_each_event :: bool where
  "reports_the_sources_drop_total_alongside_each_event \<longleftrightarrow>
     sp_drops (run_spy (source_reporting_drops [test_raw 1, test_raw 2] 4) (resolver_with ''node-1'' Behave_not_found))
       = [(''node-1'', 4), (''node-1'', 4)]"

definition reports_no_drops_when_the_source_cannot_observe_them :: bool where
  "reports_no_drops_when_the_source_cannot_observe_them \<longleftrightarrow>
     sp_drops (run_spy (source_of [test_raw 1]) (resolver_with ''node-1'' Behave_not_found)) = []"

definition labels_drops_unknown_in_standalone_mode :: bool where
  "labels_drops_unknown_in_standalone_mode \<longleftrightarrow>
     sp_drops (run_spy (source_reporting_drops [test_raw 1] 2) None) = [(''unknown'', 2)]"

definition stamps_a_heartbeat_after_every_event :: bool where
  "stamps_a_heartbeat_after_every_event \<longleftrightarrow>
     (case ran (source_of [test_raw 1, test_raw 2, test_raw 3]) (resolver_with ''n'' Behave_not_found) of
        (e, spy, stamps) \<Rightarrow> stamps = [CLOCK, CLOCK, CLOCK])"

text \<open>
  A source that never yields, in paused time: the loop turns once for each tick of the interval
  that fits into the timeout, which then drops it.
\<close>

definition stamps_a_heartbeat_while_no_events_arrive :: bool where
  "stamps_a_heartbeat_while_no_events_arrive \<longleftrightarrow>
     (let interval = unat HEARTBEAT_INTERVAL_SECONDS;
          ticks = (3 * interval + 5) div interval
      in case run park_source_ops spy_recorder (None :: unit resolver option) (\<lambda>at stamps. stamps @ [at])
               (replicate ticks clock_turn) () spy_new [] of
           (e, s', spy, stamps) \<Rightarrow> length stamps = 3 \<and> sp_events spy = [])"

definition drains_every_event_in_order :: bool where
  "drains_every_event_in_order \<longleftrightarrow>
     (let spy = run_spy (source_of [test_raw 1, test_raw 2, test_raw 3]) (resolver_with ''n'' Behave_not_found) in
      map (\<lambda>e. ev_pid (en_raw_event e)) (sp_events spy) = [1, 2, 3])"

lemma watch_tests_pass:
  "enriches_and_records_a_resolved_event" "keeps_node_but_no_identity_when_not_found"
  "records_failure_outcome_and_keeps_node" "standalone_mode_has_no_node_and_records_no_outcome"
  "reports_the_sources_drop_total_alongside_each_event" "reports_no_drops_when_the_source_cannot_observe_them"
  "labels_drops_unknown_in_standalone_mode" "stamps_a_heartbeat_after_every_event"
  "stamps_a_heartbeat_while_no_events_arrive" "drains_every_event_in_order"
  by code_simp+

section \<open>Health and its endpoint\<close>

definition reports_starting_until_the_watch_loop_starts :: bool where
  "reports_starting_until_the_watch_loop_starts \<longleftrightarrow> liveness health_new 1000 = Starting"

definition a_started_loop_that_has_not_ticked_yet_is_live :: bool where
  "a_started_loop_that_has_not_ticked_yet_is_live \<longleftrightarrow> liveness (mark_started 1000 health_new) 1000 = Live 0"

definition stays_live_up_to_and_including_the_staleness_limit :: bool where
  "stays_live_up_to_and_including_the_staleness_limit \<longleftrightarrow>
     liveness (mark_started 1000 health_new) (1000 + HEARTBEAT_STALE_AFTER_SECONDS) = Live HEARTBEAT_STALE_AFTER_SECONDS"

definition goes_stale_one_second_past_the_limit :: bool where
  "goes_stale_one_second_past_the_limit \<longleftrightarrow>
     liveness (mark_started 1000 health_new) (1001 + HEARTBEAT_STALE_AFTER_SECONDS)
       = Stale (HEARTBEAT_STALE_AFTER_SECONDS + 1)"

definition a_beat_clears_staleness :: bool where
  "a_beat_clears_staleness \<longleftrightarrow>
     (let h = mark_started 1000 health_new; stale_at = 1001 + HEARTBEAT_STALE_AFTER_SECONDS in
      (case liveness h stale_at of Stale age \<Rightarrow> True | _ \<Rightarrow> False)
      \<and> liveness (beat stale_at h) stale_at = Live 0)"

definition a_clock_that_steps_backwards_reads_as_a_fresh_beat :: bool where
  "a_clock_that_steps_backwards_reads_as_a_fresh_beat \<longleftrightarrow> liveness (mark_started 1000 health_new) 900 = Live 0"

lemma health_tests_pass:
  "reports_starting_until_the_watch_loop_starts" "a_started_loop_that_has_not_ticked_yet_is_live"
  "stays_live_up_to_and_including_the_staleness_limit" "goes_stale_one_second_past_the_limit"
  "a_beat_clears_staleness" "a_clock_that_steps_backwards_reads_as_a_fresh_beat"
  by (simp_all add: reports_starting_until_the_watch_loop_starts_def a_started_loop_that_has_not_ticked_yet_is_live_def
      stays_live_up_to_and_including_the_staleness_limit_def goes_stale_one_second_past_the_limit_def
      a_beat_clears_staleness_def a_clock_that_steps_backwards_reads_as_a_fresh_beat_def
      liveness_def health_new_def HEARTBEAT_STALE_AFTER_SECONDS_def HEARTBEAT_INTERVAL_SECONDS_def saturating_sub_def)

definition starting_is_not_yet_healthy :: bool where
  "starting_is_not_yet_healthy \<longleftrightarrow>
     (case report Starting of (status, body) \<Rightarrow> status = SERVICE_UNAVAILABLE \<and> contains body ''starting'')"

definition a_live_loop_answers_200_with_its_age :: bool where
  "a_live_loop_answers_200_with_its_age \<longleftrightarrow>
     (case report (Live 7) of (status, body) \<Rightarrow> status = OK_STATUS \<and> contains body ''7s ago'')"

definition a_stale_loop_fails_the_probe_and_names_the_limit :: bool where
  "a_stale_loop_fails_the_probe_and_names_the_limit \<longleftrightarrow>
     (case report (Stale 400) of (status, body) \<Rightarrow>
        status = SERVICE_UNAVAILABLE \<and> contains body ''400s''
        \<and> contains body (show_nat (unat HEARTBEAT_STALE_AFTER_SECONDS)))"

lemma shown_ages: "show_nat 7 = ''7''" "show_nat 400 = ''400''"
  by code_simp+

lemma report_tests_pass:
  "starting_is_not_yet_healthy" "a_live_loop_answers_200_with_its_age"
  "a_stale_loop_fails_the_probe_and_names_the_limit"
  by (simp_all add: starting_is_not_yet_healthy_def a_live_loop_answers_200_with_its_age_def
      a_stale_loop_fails_the_probe_and_names_the_limit_def shown_ages show_90 stale_after)

section \<open>Resolution and enrichment\<close>

definition identity_is_some_only_when_found :: bool where
  "identity_is_some_only_when_found \<longleftrightarrow>
     outcome_identity (Found test_identity) = Some test_identity \<and> outcome_identity NotFound = None
     \<and> outcome_identity (Failed ''boom'') = None"

definition fake_resolver_yields_each_outcome :: bool where
  "fake_resolver_yields_each_outcome \<longleftrightarrow>
     (let found = fake_resolver ''node-1'' (Behave_found test_identity);
          missing = fake_resolver ''node-1'' Behave_not_found;
          broken = fake_resolver ''node-1'' Behave_fail
      in rv_node_name found = ''node-1''
         \<and> (case rv_resolve found () 1234 of Found i \<Rightarrow> True | _ \<Rightarrow> False)
         \<and> (case rv_resolve missing () 1234 of NotFound \<Rightarrow> True | _ \<Rightarrow> False)
         \<and> (case rv_resolve broken () 1234 of Failed e \<Rightarrow> True | _ \<Rightarrow> False))"

definition enrich_raw :: oom_kill_event where
  "enrich_raw =
     \<lparr>ev_pid = 1234, ev_comm = map (\<lambda>c. of_nat (of_char c)) ''python'' @ replicate 10 0, ev_total_vm = 100,
      ev_anon_rss = 50, ev_file_rss = 20, ev_shmem_rss = 5, ev_uid = 1000, ev_pgtables = 8, ev_oom_score_adj = 0\<rparr>"

definition fills_all_fields_when_identity_resolved_on_node :: bool where
  "fills_all_fields_when_identity_resolved_on_node \<longleftrightarrow>
     (let e = enrich enrich_raw (Some ''node-1'') (Some test_identity) 42 in
      en_node_name e = Some ''node-1'' \<and> en_namespace e = Some ''prod'' \<and> en_pod_name e = Some ''api-7d9''
      \<and> en_container_name e = Some ''api'' \<and> en_container_id e = Some ''containerd://abc123''
      \<and> en_image_id e = Some ''repo@sha256:def456'')"

definition keeps_node_when_identity_unresolved :: bool where
  "keeps_node_when_identity_unresolved \<longleftrightarrow>
     (let e = enrich enrich_raw (Some ''node-1'') None 42 in
      en_node_name e = Some ''node-1'' \<and> en_namespace e = None \<and> en_pod_name e = None
      \<and> en_container_name e = None \<and> en_container_id e = None \<and> en_image_id e = None)"

definition all_none_in_standalone_mode :: bool where
  "all_none_in_standalone_mode \<longleftrightarrow>
     (let e = enrich enrich_raw None None 42 in
      en_node_name e = None \<and> en_namespace e = None \<and> en_pod_name e = None
      \<and> en_container_name e = None \<and> en_container_id e = None \<and> en_image_id e = None)"

definition passes_raw_event_and_timestamp_through :: bool where
  "passes_raw_event_and_timestamp_through \<longleftrightarrow>
     (let e = enrich enrich_raw None None 99 in
      en_timestamp e = 99 \<and> ev_pid (en_raw_event e) = 1234 \<and> ev_total_vm (en_raw_event e) = 100)"

lemma resolution_tests_pass:
  "identity_is_some_only_when_found" "fake_resolver_yields_each_outcome"
  "fills_all_fields_when_identity_resolved_on_node" "keeps_node_when_identity_unresolved"
  "all_none_in_standalone_mode" "passes_raw_event_and_timestamp_through"
  by (simp_all add: identity_is_some_only_when_found_def fake_resolver_yields_each_outcome_def fake_resolver_def
      fills_all_fields_when_identity_resolved_on_node_def keeps_node_when_identity_unresolved_def
      all_none_in_standalone_mode_def passes_raw_event_and_timestamp_through_def test_identity_def enrich_raw_def)

section \<open>The tracepoint layout\<close>

text \<open>\<open>text.replace(old, new)\<close> for a non-empty \<open>old\<close>.\<close>

function replace_all :: "string \<Rightarrow> string \<Rightarrow> string \<Rightarrow> string" where
  "replace_all old new s =
     (case s of
        [] \<Rightarrow> []
      | c # cs \<Rightarrow>
          (case strip_prefix old s of
             None \<Rightarrow> c # replace_all old new cs
           | Some rest \<Rightarrow> if old = [] then s else new @ replace_all old new rest))"
  by pat_completeness auto

termination
  by (relation "measure (\<lambda>(old, new, s). length s)") (auto simp: strip_prefix_Some_iff)

declare replace_all.simps [simp del]

definition parses_every_field_line :: bool where
  "parses_every_field_line \<longleftrightarrow>
     (let fields = parse_format MODERN in
      length fields = 13 \<and> (''total_vm'', 16, 8) \<in> set fields \<and> (''oom_score_adj'', 64, 2) \<in> set fields)"

definition reduces_data_loc_declaration_to_the_bare_name :: bool where
  "reduces_data_loc_declaration_to_the_bare_name \<longleftrightarrow> (''comm'', 12, 4) \<in> set (parse_format MODERN)"

definition strips_array_suffix_from_field_name :: bool where
  "strips_array_suffix_from_field_name \<longleftrightarrow>
     parse_format (tab # ''field:char comm[16];'' @ tab # ''offset:12;'' @ tab # ''size:16;'' @ tab # ''signed:1;'')
       = [(''comm'', 12, 16)]"

definition accepts_the_layout_the_probe_decodes :: bool where
  "accepts_the_layout_the_probe_decodes \<longleftrightarrow> check_layout MODERN = []"

definition reports_every_field_the_pre_6_9_tracepoint_lacks :: bool where
  "reports_every_field_the_pre_6_9_tracepoint_lacks \<longleftrightarrow>
     (let mismatches = check_layout PRE_6_9 in
      length mismatches = 8 \<and> list_all is_missing mismatches
      \<and> (Missing ''total_vm'') \<in> set mismatches \<and> \<not> (Missing ''pid'') \<in> set mismatches)"

definition shifted_format :: string where
  "shifted_format =
     replace_all (''field:unsigned long pgtables;'' @ tab # ''offset:56;'' @ tab # ''size:8;'')
       (''field:unsigned long pgtables;'' @ tab # ''offset:60;'' @ tab # ''size:8;'') MODERN"

definition reports_a_field_that_moved_rather_than_vanished :: bool where
  "reports_a_field_that_moved_rather_than_vanished \<longleftrightarrow>
     check_layout shifted_format = [Moved ''pgtables'' (56, 8) (60, 8)]"

definition ignores_non_field_lines :: bool where
  "ignores_non_field_lines \<longleftrightarrow>
     parse_format (''name: mark_victim'' @ newline # ''ID: 1442'' @ newline # ''format:'' @ [newline]) = []"

lemma format_tests_pass:
  "parses_every_field_line" "reduces_data_loc_declaration_to_the_bare_name"
  "accepts_the_layout_the_probe_decodes" "reports_every_field_the_pre_6_9_tracepoint_lacks"
  by (simp_all add: parses_every_field_line_def reduces_data_loc_declaration_to_the_bare_name_def
      accepts_the_layout_the_probe_decodes_def reports_every_field_the_pre_6_9_tracepoint_lacks_def
      parse_MODERN check_layout_kernels Let_def)

lemma lines_single:
  assumes "newline \<notin> set s" "s \<noteq> []"
  shows "lines s = [s]"
proof -
  have "split_inclusive newline s = [s]" using assms
  proof (induction s)
    case (Cons c t)
    then show ?case by (cases t) auto
  qed simp
  moreover have "last s \<noteq> newline" using assms last_in_set by metis
  ultimately show ?thesis by (simp add: lines_def strip_line_end_def strip_suffix_char_def)
qed

lemma strips_array_test_passes: "strips_array_suffix_from_field_name"
proof -
  let ?f = "\<lparr>ff_type = ''char'', ff_name = ''comm'', ff_array = ''[16]'', ff_offset = 12, ff_size = 16, ff_signed = 1\<rparr>"
  have shown: "tab # ''field:char comm[16];'' @ tab # ''offset:12;'' @ tab # ''size:16;'' @ tab # ''signed:1;'' = render_field ?f"
    by code_simp
  have ok: "format_field_ok ?f" by (simp add: format_field_ok_def graphic_def)
  have "newline \<notin> set (render_field ?f)" using render_line_fresh(1) [of "Field_Line ?f"] ok by simp
  then have "lines (render_field ?f) = [render_field ?f]" by (simp add: lines_single render_field_eq)
  then show ?thesis
    unfolding strips_array_suffix_from_field_name_def shown
    by (simp add: parse_format_def parse_line_render [OF ok] format_entry_def map_filter_simps
        del: One_nat_def)
qed

lemma non_field_test_passes: "ignores_non_field_lines"
proof -
  let ?ls = "[Other_Line ''name: mark_victim'', Other_Line ''ID: 1442'', Other_Line ''format:'']"
  have "''name: mark_victim'' @ newline # ''ID: 1442'' @ newline # ''format:'' @ [newline] = render_lines ?ls"
    by (simp add: render_lines_def)
  moreover have "list_all format_line_ok ?ls"
    by (simp add: other_line_ok format_header_ok graphic_def del: format_line_ok.simps)
  ultimately show ?thesis
    by (simp only: ignores_non_field_lines_def parse_lines) (simp add: map_filter_simps)
qed

definition shifted_lines :: "format_line list" where
  "shifted_lines =
     common_lines ''1442'' @ butlast (butlast extended_lines)
     @ [plain_field ''unsigned long'' ''pgtables'' 60 8 0, plain_field ''short'' ''oom_score_adj'' 64 2 1]
     @ [Other_Line [], Other_Line (''print fmt: \"pid=%d comm=%s total-vm=%lukB\", ''
          @ ''REC->pid, __get_str(comm), REC->total_vm'')]"

text \<open>Replacing a text without newlines works line by line.\<close>

lemma replace_all_line:
  "d \<notin> set old \<Longrightarrow> old \<noteq> [] \<Longrightarrow>
     replace_all old new (a @ d # s) = replace_all old new a @ d # replace_all old new s"
proof (induction old new a rule: replace_all.induct)
  case (1 old new a)
  show ?case
  proof (cases a)
    case Nil
    from "1.prems" have "strip_prefix old (d # s) = None" by (cases old) auto
    then show ?thesis using Nil by (simp add: replace_all.simps [of _ _ "d # s"] replace_all.simps [of _ _ "[]"])
  next
    case (Cons c cs)
    have line: "strip_prefix old (c # cs @ d # s) = map_option (\<lambda>r. r @ d # s) (strip_prefix old (c # cs))"
      using strip_prefix_line [OF "1.prems"(1), of "c # cs" s] by simp
    show ?thesis
    proof (cases "strip_prefix old (c # cs)")
      case None
      with "1.IH"(1) [OF Cons] "1.prems" Cons line show ?thesis
        by (simp add: replace_all.simps [of _ _ "c # _"])
    next
      case (Some rest)
      with "1.IH"(2) [OF Cons] "1.prems" Cons line show ?thesis
        by (simp add: replace_all.simps [of _ _ "c # _"])
    qed
  qed
qed

lemma replace_all_lines:
  "newline \<notin> set old \<Longrightarrow> old \<noteq> [] \<Longrightarrow>
     replace_all old new (render_lines ls) = concat (map (\<lambda>l. replace_all old new (render_line l) @ [newline]) ls)"
  by (induction ls) (simp_all add: render_lines_def replace_all_line, simp add: replace_all.simps)

lemma shifted_text: "shifted_format = render_lines shifted_lines"
  unfolding shifted_format_def MODERN_def
  by (subst replace_all_lines) (simp, simp, code_simp)

lemma shifted_parsed:
  "parse_format shifted_format =
     [(''common_type'', 0, 2), (''common_flags'', 2, 1), (''common_preempt_count'', 3, 1),
      (''common_pid'', 4, 4), (''pid'', 8, 4), (''comm'', 12, 4), (''total_vm'', 16, 8),
      (''anon_rss'', 24, 8), (''file_rss'', 32, 8), (''shmem_rss'', 40, 8), (''uid'', 48, 4),
      (''pgtables'', 60, 8), (''oom_score_adj'', 64, 2)]"
  unfolding shifted_text shifted_lines_def
  by (subst parse_lines)
     (simp add: common_lines_ok extended_lines_def line_ok_simps del: format_line_ok.simps,
      simp add: common_lines_def extended_lines_def line_entry_plain map_filter_simps)

lemma shifted_test_passes: "reports_a_field_that_moved_rather_than_vanished"
  by (simp add: reports_a_field_that_moved_rather_than_vanished_def check_layout_def shifted_parsed
      REQUIRED_FIELDS_def Field_new_def check_field_def layout_find_def map_filter_simps)

end
