(* ===== verification/Tests_Metrics.thy ===== *)
theory Tests_Metrics
  imports Registration Http "HOL-Library.Code_Target_Nat"
begin

text \<open>
  The tests of \<open>oom-watcher/src/metrics.rs\<close>, one definition for each under the name of the test,
  over the model on association lists. The text encoder is the crate's; here it is the text
  exposition format as documented: a help and a type line for every family with children, then
  a line for each child with its labels sorted by name. Families come in the order of their
  registration and children in that of their creation, where the crate sorts both; no test
  depends on it.
\<close>

section \<open>The exposition format\<close>

definition quote_char :: char where
  "quote_char = CHR 0x22"

definition escape :: "string \<Rightarrow> string" where
  "escape s = concat (map (\<lambda>c.
     if c = CHR 0x5C then [CHR 0x5C, CHR 0x5C] else if c = quote_char then [CHR 0x5C, quote_char]
     else if c = newline then [CHR 0x5C, CHR ''n''] else [c]) s)"

definition label_pair :: "string \<times> string \<Rightarrow> string" where
  "label_pair p = (case p of (name, val) \<Rightarrow> name @ ''='' @ [quote_char] @ escape val @ [quote_char])"

fun comma_separated :: "string list \<Rightarrow> string" where
  "comma_separated [] = []"
| "comma_separated [s] = s"
| "comma_separated (s # ss) = s @ '','' @ comma_separated ss"

text \<open>The order of the label names: positions in the list of values, sorted by name.\<close>

definition sample_line :: "string \<Rightarrow> string list \<Rightarrow> string list \<Rightarrow> f64 \<Rightarrow> string" where
  "sample_line name names vals x =
     name @ ''{'' @ comma_separated (map (\<lambda>l. label_pair (l, the (map_of (zip names vals) l)))
        (filter (\<lambda>l. l \<in> set names)
          [''container'', ''container_id'', ''image_id'', ''memory_type'', ''namespace'', ''node'', ''pod'', ''reason'']))
     @ ''} '' @ (case x of F64 n \<Rightarrow> show_nat n)"

definition family_lines :: "family_spec \<times> family \<Rightarrow> string list" where
  "family_lines p = (case p of (spec, fam) \<Rightarrow>
     if fam_children fam = [] then []
     else (''# HELP '' @ fs_name spec @ '' '' @ fs_help spec)
       # (''# TYPE '' @ fs_name spec @ (case fs_kind spec of Counter_Vec \<Rightarrow> '' counter'' | Gauge_Vec \<Rightarrow> '' gauge''))
       # map (\<lambda>(ls, x). sample_line (fs_name spec) (fs_labels spec) ls x) (fam_children fam))"

definition exposition_lines :: "family collector \<Rightarrow> string list" where
  "exposition_lines c = concat (map family_lines (zip FAMILIES (collector_families c)))"

definition text_encode :: "family collector \<Rightarrow> string option" where
  "text_encode c = Some (concat (map (\<lambda>l. l @ [newline]) (exposition_lines c)))"

abbreviation shown_text :: "family collector \<Rightarrow> string" where
  "shown_text c \<equiv> get_metrics text_encode c"

definition displays_line :: "family collector \<Rightarrow> string \<Rightarrow> bool" where
  "displays_line c needle \<longleftrightarrow> list_ex (\<lambda>l. contains l needle) (exposition_lines c)"

lemma sublist_line:
  assumes "d \<notin> set n" "n \<noteq> []"
  shows "sublist n (a @ d # s) \<longleftrightarrow> sublist n a \<or> sublist n s"
  using assms by (auto simp: sublist_append prefix_Cons suffix_def append_eq_Cons_conv sublist_Cons_right)

lemma contains_lines:
  "newline \<notin> set n \<Longrightarrow> n \<noteq> [] \<Longrightarrow>
     contains (concat (map (\<lambda>l. l @ [newline]) ls)) n \<longleftrightarrow> list_ex (\<lambda>l. contains l n) ls"
  by (induction ls) (simp_all add: contains_iff sublist_line)

lemma contains_shown:
  "newline \<notin> set n \<Longrightarrow> n \<noteq> [] \<Longrightarrow> contains (shown_text c) n \<longleftrightarrow> displays_line c n"
  by (simp add: get_metrics_def text_encode_def contains_lines displays_line_def)

section \<open>Fixtures\<close>

text \<open>
  Code equations for the evaluation: below \<open>2 ^ 53\<close> no rounding is to be computed, and a value
  below \<open>2 ^ 64\<close> is its own residue.
\<close>

lemma round_f64_code [code]:
  "round_f64 n = (if n < 9007199254740992 then n else round_at (f64_exp n) n)"
  by (simp add: round_f64_def)

lemma take_bit_code [code]:
  "take_bit n (k :: int) =
     (if 0 \<le> k \<and> 64 \<le> n \<and> k < 18446744073709551616 then k else k mod 2 ^ n)"
proof -
  have "k < 2 ^ n" if "64 \<le> n" "k < 18446744073709551616"
  proof -
    from that(1) have "(2 :: int) ^ 64 \<le> 2 ^ n" by (rule power_increasing) simp
    with that(2) show ?thesis by simp
  qed
  then show ?thesis by (simp add: take_bit_eq_mod)
qed

lemma show_nat_code [code]:
  "show_nat n =
     (if n < 10 then [digit_char n]
      else case Euclidean_Rings.divmod_nat n 10 of (q, r) \<Rightarrow> show_nat q @ [digit_char r])"
  by (simp add: show_nat.simps [of n] Euclidean_Rings.divmod_nat_def)

abbreviation fresh_collector :: "family collector" where "fresh_collector \<equiv> collector_new assoc_prom"
abbreviation record_event :: "enriched_oom_event \<Rightarrow> family collector \<Rightarrow> family collector" where
  "record_event \<equiv> record_oom_event assoc_prom"
abbreviation record_outcome :: "resolution_outcome \<Rightarrow> family collector \<Rightarrow> family collector" where
  "record_outcome \<equiv> record_resolution_outcome assoc_prom ''node-1''"
abbreviation record_dropped :: "u64 \<Rightarrow> family collector \<Rightarrow> family collector" where
  "record_dropped \<equiv> record_dropped_total assoc_prom ''node-1''"
abbreviation evict_from :: "u64 \<Rightarrow> u64 \<Rightarrow> family collector \<Rightarrow> nat \<times> family collector" where
  "evict_from \<equiv> evict_stale assoc_prom"

definition event_for :: "string \<Rightarrow> string \<Rightarrow> u64 \<Rightarrow> enriched_oom_event" where
  "event_for pod container_id timestamp =
     \<lparr>en_raw_event = \<lparr>ev_pid = 1234, ev_comm = map (\<lambda>c. of_nat (of_char c)) ''python'' @ replicate 10 0,
        ev_total_vm = 100, ev_anon_rss = 50, ev_file_rss = 20, ev_shmem_rss = 5, ev_uid = 1000,
        ev_pgtables = 8, ev_oom_score_adj = 0\<rparr>,
      en_node_name = Some ''node-1'', en_namespace = Some ''prod'', en_pod_name = Some pod,
      en_container_name = Some ''api'', en_container_id = Some container_id,
      en_image_id = Some ''repo@sha256:def456'', en_timestamp = timestamp\<rparr>"

definition event_at :: "string \<Rightarrow> u64 \<Rightarrow> enriched_oom_event" where
  "event_at pod timestamp = event_for pod ''containerd://abc123'' timestamp"

definition T0 :: u64 where "T0 = 1717000000"
definition TTL :: u64 where "TTL = 1800"

text \<open>Labels in braces, as written out in the tests.\<close>

definition braces :: "(string \<times> string) list \<Rightarrow> string" where
  "braces pairs = ''{'' @ comma_separated (map label_pair pairs) @ ''}''"

definition RESOLVED_LABELS :: string where
  "RESOLVED_LABELS =
     braces [(''container'', ''api''), (''container_id'', ''containerd://abc123''),
       (''image_id'', ''repo@sha256:def456''), (''namespace'', ''prod''), (''node'', ''node-1''), (''pod'', ''api-7d9'')]"

definition node_label_text :: string where
  "node_label_text = braces [(''node'', ''node-1'')]"

text \<open>
  What the tests ask of the text, and how it is evaluated: line by line.
\<close>

definition displays :: "family collector \<Rightarrow> string \<Rightarrow> bool" where
  "displays c needle \<longleftrightarrow> contains (shown_text c) needle"

definition shown_lines :: "family collector \<Rightarrow> string list" where
  "shown_lines c = lines (shown_text c)"

lemma displays_code [code]:
  "displays c needle =
     (if needle \<noteq> [] \<and> newline \<notin> set needle then displays_line c needle else contains (shown_text c) needle)"
  by (simp add: displays_def contains_shown)

definition plain_line :: "string \<Rightarrow> bool" where
  "plain_line l \<longleftrightarrow> newline \<notin> set l \<and> carriage_return \<notin> set l"

lemma lines_of_lines:
  "list_all plain_line ls \<Longrightarrow> lines (concat (map (\<lambda>l. l @ [newline]) ls)) = ls"
proof (induction ls)
  case (Cons l ls)
  then have "newline \<notin> set l" "l = [] \<or> last l \<noteq> carriage_return"
    by (auto simp: plain_line_def dest: last_in_set)
  with Cons show ?case by (simp add: lines_Cons)
qed simp

lemma shown_lines_code [code]:
  "shown_lines c = (if list_all plain_line (exposition_lines c) then exposition_lines c else lines (shown_text c))"
  by (simp add: shown_lines_def get_metrics_def text_encode_def lines_of_lines)

text \<open>\<open>text.matches(pat).count()\<close>, occurrence by occurrence without overlap; \<open>pat\<close> is not empty.\<close>

fun count_from :: "nat \<Rightarrow> string \<Rightarrow> string \<Rightarrow> nat" where
  "count_from skip pat [] = 0"
| "count_from skip pat (c # s) =
     (if 0 < skip then count_from (skip - 1) pat s
      else if strip_prefix pat (c # s) \<noteq> None then Suc (count_from (length pat - 1) pat s)
      else count_from 0 pat s)"

definition match_count :: "string \<Rightarrow> string \<Rightarrow> nat" where
  "match_count text' pat = count_from 0 pat text'"

definition shown_count :: "family collector \<Rightarrow> string \<Rightarrow> nat" where
  "shown_count c pat = match_count (shown_text c) pat"

lemma count_from_line:
  "d \<notin> set pat \<Longrightarrow> pat \<noteq> [] \<Longrightarrow> skip \<le> length a \<Longrightarrow>
     count_from skip pat (a @ d # s) = count_from skip pat a + count_from 0 pat s"
proof (induction skip pat a rule: count_from.induct)
  case (1 skip pat)
  then have "strip_prefix pat (d # s) = None" by (cases pat) auto
  with 1 show ?case by simp
next
  case (2 skip pat c a)
  have line: "strip_prefix pat (c # a @ d # s) = map_option (\<lambda>r. r @ d # s) (strip_prefix pat (c # a))"
    using strip_prefix_line [OF "2.prems"(1), of "c # a" s] by simp
  show ?case
  proof (cases "0 < skip \<or> strip_prefix pat (c # a) = None")
    case True
    with 2 line show ?thesis by auto
  next
    case False
    then obtain r where "c # a = pat @ r" "skip = 0" by (auto simp: strip_prefix_Some_iff)
    then have "length pat - 1 \<le> length a" by (metis diff_le_self le_trans length_Cons length_append le_add1 diff_Suc_1 diff_le_mono)
    with "2.IH"(2) "2.prems" False line show ?thesis by auto
  qed
qed

lemma shown_count_code [code]:
  "shown_count c pat =
     (if pat \<noteq> [] \<and> newline \<notin> set pat
      then sum_list (map (\<lambda>l. match_count l pat) (exposition_lines c)) else match_count (shown_text c) pat)"
proof -
  have "match_count (concat (map (\<lambda>l. l @ [newline]) ls)) pat = sum_list (map (\<lambda>l. match_count l pat) ls)"
    if "pat \<noteq> []" "newline \<notin> set pat" for ls
    using that by (induction ls) (simp_all add: match_count_def count_from_line)
  then show ?thesis by (simp add: shown_count_def get_metrics_def text_encode_def)
qed

definition event_using :: "string \<Rightarrow> u64 \<Rightarrow> u64 \<times> u64 \<times> u64 \<times> u64 \<Rightarrow> enriched_oom_event" where
  "event_using pod timestamp kilobytes =
     (case kilobytes of (total_vm, anon_rss, file_rss, shmem_rss) \<Rightarrow>
        let event = event_at pod timestamp in
        event\<lparr>en_raw_event := (en_raw_event event)\<lparr>ev_total_vm := total_vm, ev_anon_rss := anon_rss,
                 ev_file_rss := file_rss, ev_shmem_rss := shmem_rss\<rparr>\<rparr>)"

text \<open>The value of a gauge in the text; no such line is \<open>None\<close>, where the test panics.\<close>

definition memory_gauge :: "family collector \<Rightarrow> string \<Rightarrow> f64 option" where
  "memory_gauge c memory_type =
     (let start = ''oom_memory_usage_bytes''
            @ braces [(''container'', ''api''), (''memory_type'', memory_type), (''namespace'', ''prod''),
                      (''node'', ''node-1''), (''pod'', ''api-7d9'')] @ '' ''
      in case find_map (strip_prefix start) (shown_lines c) of
           None \<Rightarrow> None
         | Some rest \<Rightarrow> map_option F64 (parse_uint 64 (trim rest)))"

definition KIB :: nat where "KIB = 1024"

section \<open>The tests\<close>

definition counts_failures_by_reason_and_ignores_found :: bool where
  "counts_failures_by_reason_and_ignores_found \<longleftrightarrow>
     (let c = record_outcome (Found \<lparr>ci_namespace = ''p'', ci_pod_name = ''po'', ci_container_name = ''c'',
                ci_container_id = ''containerd://id'', ci_image_id = ''repo@sha256:d''\<rparr>)
              (record_outcome (Failed ''x'') (record_outcome NotFound (record_outcome NotFound fresh_collector)))
      in displays c
           (''oom_resolution_failures_total'' @ braces [(''node'', ''node-1''), (''reason'', ''not_found'')] @ '' 2'')
         \<and> displays c
           (''oom_resolution_failures_total'' @ braces [(''node'', ''node-1''), (''reason'', ''error'')] @ '' 1''))"

definition advances_the_drop_counter_by_the_delta_between_readings :: bool where
  "advances_the_drop_counter_by_the_delta_between_readings \<longleftrightarrow>
     (let c = record_dropped 10 (record_dropped 3 (record_dropped 3 fresh_collector)) in
      displays c (''oom_events_dropped_total'' @ node_label_text @ '' 10''))"

definition ignores_a_drop_total_that_moves_backwards :: bool where
  "ignores_a_drop_total_that_moves_backwards \<longleftrightarrow>
     (let c = record_dropped 2 (record_dropped 7 fresh_collector) in
      displays c (''oom_events_dropped_total'' @ node_label_text @ '' 7''))"

definition evicts_a_series_untouched_for_at_least_the_ttl :: bool where
  "evicts_a_series_untouched_for_at_least_the_ttl \<longleftrightarrow>
     (let c = record_event (event_at ''api-7d9'' T0) fresh_collector in
      case evict_from (T0 + TTL) TTL c of (n, c') \<Rightarrow> n = 1 \<and> \<not> displays (c') (''api-7d9''))"

definition keeps_a_series_touched_within_the_ttl :: bool where
  "keeps_a_series_touched_within_the_ttl \<longleftrightarrow>
     (let c = record_event (event_at ''api-7d9'' T0) fresh_collector in
      case evict_from (T0 + TTL - 1) TTL c of (n, c') \<Rightarrow> n = 0 \<and> displays (c') (''oom_kills_total'' @ RESOLVED_LABELS @ '' 1''))"

definition a_deleted_pods_series_goes_on_the_pods_schedule_not_the_ttls :: bool where
  "a_deleted_pods_series_goes_on_the_pods_schedule_not_the_ttls \<longleftrightarrow>
     (let c = note_pod_deleted ''prod'' ''api-7d9'' T0 (record_event (event_at ''api-7d9'' T0) fresh_collector) in
      case evict_from (T0 + DELETED_POD_GRACE_SECONDS) TTL c of (n, c') \<Rightarrow> n = 1 \<and> \<not> displays (c') (''api-7d9''))"

definition a_deleted_pods_series_survives_until_the_grace_has_passed :: bool where
  "a_deleted_pods_series_survives_until_the_grace_has_passed \<longleftrightarrow>
     (let c = note_pod_deleted ''prod'' ''api-7d9'' T0 (record_event (event_at ''api-7d9'' T0) fresh_collector) in
      case evict_from (T0 + DELETED_POD_GRACE_SECONDS - 1) TTL c of (n, c') \<Rightarrow> n = 0 \<and> displays (c') (''oom_kills_total'' @ RESOLVED_LABELS @ '' 1''))"

definition deleting_a_pod_takes_every_restart_of_its_containers :: bool where
  "deleting_a_pod_takes_every_restart_of_its_containers \<longleftrightarrow>
     (let c = note_pod_deleted ''prod'' ''api-7d9'' T0 (record_event (event_for ''api-7d9'' ''containerd://second'' T0)
                (record_event (event_for ''api-7d9'' ''containerd://first'' T0) fresh_collector)) in
      case evict_from (T0 + DELETED_POD_GRACE_SECONDS) TTL c of (n, c') \<Rightarrow> n = 2 \<and> \<not> displays (c') (''oom_memory_usage_bytes{''))"

definition a_deleted_pod_leaves_another_pods_series_alone :: bool where
  "a_deleted_pod_leaves_another_pods_series_alone \<longleftrightarrow>
     (let c = note_pod_deleted ''prod'' ''api-7d9'' T0 (record_event (event_at ''worker-1'' T0)
                (record_event (event_at ''api-7d9'' T0) fresh_collector)) in
      case evict_from (T0 + DELETED_POD_GRACE_SECONDS) TTL c of (n, c') \<Rightarrow> n = 1 \<and> displays (c') (''worker-1''))"

definition forgets_a_deleted_pod_that_never_oomed :: bool where
  "forgets_a_deleted_pod_that_never_oomed \<longleftrightarrow>
     (let c = note_pod_deleted ''prod'' ''never-oomed'' T0 fresh_collector in
      case evict_from (T0 + DELETED_POD_GRACE_SECONDS) TTL c of (n, c') \<Rightarrow> n = 0 \<and> deleted_after c' = [])"

definition keeps_a_deleted_pods_bookkeeping_until_it_is_due :: bool where
  "keeps_a_deleted_pods_bookkeeping_until_it_is_due \<longleftrightarrow>
     (let c = note_pod_deleted ''prod'' ''never-oomed'' T0 fresh_collector in
      case evict_from (T0 + DELETED_POD_GRACE_SECONDS - 1) TTL c of (n, c') \<Rightarrow> n = 0 \<and> length (deleted_after c') = 1)"

definition distinguishes_pods_of_the_same_name_in_different_namespaces :: bool where
  "distinguishes_pods_of_the_same_name_in_different_namespaces \<longleftrightarrow>
     (let c = note_pod_deleted ''staging'' ''api-7d9'' T0 (record_event (event_at ''api-7d9'' T0) fresh_collector) in
      case evict_from (T0 + DELETED_POD_GRACE_SECONDS) TTL c of (n, c') \<Rightarrow> n = 0 \<and> displays (c') (''api-7d9''))"

definition evicts_only_the_stale_series_and_leaves_fresh_ones :: bool where
  "evicts_only_the_stale_series_and_leaves_fresh_ones \<longleftrightarrow>
     (let c = record_event (event_at ''steady-1'' (T0 + TTL))
                (record_event (event_at ''crashloop-1'' T0) fresh_collector) in
      case evict_from (T0 + TTL) TTL c of (n, c') \<Rightarrow> n = 1 \<and> \<not> displays (c') (''crashloop-1'') \<and> displays (c') (''steady-1''))"

definition evicting_removes_every_memory_type_gauge :: bool where
  "evicting_removes_every_memory_type_gauge \<longleftrightarrow>
     (let c = record_event (event_at ''api-7d9'' T0) fresh_collector in
      shown_count c ''oom_memory_usage_bytes{'' = length MEMORY_TYPES
      \<and> \<not> displays (snd (evict_from (T0 + TTL) TTL c)) (''oom_memory_usage_bytes{''))"

definition a_later_touch_extends_the_lifetime_of_a_series :: bool where
  "a_later_touch_extends_the_lifetime_of_a_series \<longleftrightarrow>
     (let c = record_event (event_at ''api-7d9'' (T0 + TTL)) (record_event (event_at ''api-7d9'' T0) fresh_collector) in
      fst (evict_from (T0 + TTL) TTL c) = 0)"

definition forgets_the_evicted_key_so_a_second_sweep_is_a_no_op :: bool where
  "forgets_the_evicted_key_so_a_second_sweep_is_a_no_op \<longleftrightarrow>
     (let c = snd (evict_from (T0 + TTL) TTL (record_event (event_at ''api-7d9'' T0) fresh_collector)) in
      fst (evict_from (T0 + 2 * TTL) TTL c) = 0)"

definition a_series_recreated_after_eviction_starts_from_zero :: bool where
  "a_series_recreated_after_eviction_starts_from_zero \<longleftrightarrow>
     (let c = snd (evict_from (T0 + TTL) TTL (record_event (event_at ''api-7d9'' T0) (record_event (event_at ''api-7d9'' T0) fresh_collector)));
          c' = record_event (event_at ''api-7d9'' (T0 + 2 * TTL)) c
      in displays (c') (''oom_kills_total'' @ RESOLVED_LABELS @ '' 1''))"

definition counts_evictions_per_node :: bool where
  "counts_evictions_per_node \<longleftrightarrow>
     (let c = snd (evict_from (T0 + TTL) TTL (record_event (event_at ''api-8f2'' T0) (record_event (event_at ''api-7d9'' T0) fresh_collector))) in
      displays (c) (''oom_series_evicted_total'' @ node_label_text @ '' 2''))"

definition does_not_emit_an_eviction_series_until_something_is_evicted :: bool where
  "does_not_emit_an_eviction_series_until_something_is_evicted \<longleftrightarrow>
     (let c = snd (evict_from T0 TTL (record_event (event_at ''api-7d9'' T0) fresh_collector)) in
      \<not> displays (c) (''oom_series_evicted_total{''))"

definition leaves_node_scoped_series_alone :: bool where
  "leaves_node_scoped_series_alone \<longleftrightarrow>
     (let c = snd (evict_from (T0 + TTL) TTL (record_event (event_at ''api-7d9'' T0) fresh_collector)) in
      displays (c) (''oom_kills_per_node_total'' @ node_label_text @ '' 1''))"

definition evicts_the_unknown_label_set_of_an_unresolved_event :: bool where
  "evicts_the_unknown_label_set_of_an_unresolved_event \<longleftrightarrow>
     (let event = (event_at ''api-7d9'' T0)
              \<lparr>en_node_name := None, en_namespace := None, en_pod_name := None, en_container_name := None\<rparr>;
          c = record_event event fresh_collector
      in displays c (label_pair (''pod'', ''unknown''))
         \<and> (case evict_from (T0 + TTL) TTL c of (n, c') \<Rightarrow>
              n = 1 \<and> \<not> displays c' (label_pair (''pod'', ''unknown''))))"

definition labels_oom_kills_total_with_the_container_and_image_ids :: bool where
  "labels_oom_kills_total_with_the_container_and_image_ids \<longleftrightarrow>
     (let c = record_event (event_at ''api-7d9'' T0) fresh_collector in displays (c) (''oom_kills_total'' @ RESOLVED_LABELS @ '' 1''))"

definition labels_oom_last_timestamp_with_the_container_and_image_ids :: bool where
  "labels_oom_last_timestamp_with_the_container_and_image_ids \<longleftrightarrow>
     (let c = record_event (event_at ''api-7d9'' T0) fresh_collector in displays (c) (''oom_last_timestamp'' @ RESOLVED_LABELS))"

definition leaves_the_memory_gauge_label_set_unchanged :: bool where
  "leaves_the_memory_gauge_label_set_unchanged \<longleftrightarrow>
     (let c = record_event (event_at ''api-7d9'' T0) fresh_collector in
      displays c (''oom_memory_usage_bytes''
        @ braces [(''container'', ''api''), (''memory_type'', ''anon_rss''), (''namespace'', ''prod''),
                  (''node'', ''node-1''), (''pod'', ''api-7d9'')])
      \<and> \<not> list_ex (\<lambda>l. strip_prefix ''oom_memory_usage_bytes'' l \<noteq> None \<and> contains l ''container_id='') (shown_lines c))"

definition falls_back_to_unknown_for_both_ids_when_resolution_failed :: bool where
  "falls_back_to_unknown_for_both_ids_when_resolution_failed \<longleftrightarrow>
     (let event = (event_at ''api-7d9'' T0)
              \<lparr>en_namespace := None, en_pod_name := None, en_container_name := None,
                en_container_id := None, en_image_id := None\<rparr>;
          c = record_event event fresh_collector
      in displays c (''oom_kills_total''
           @ braces [(''container'', ''unknown''), (''container_id'', ''unknown''), (''image_id'', ''unknown''),
                     (''namespace'', ''unknown''), (''node'', ''node-1''), (''pod'', ''unknown'')] @ '' 1''))"

definition keeps_the_memory_gauge_while_another_restart_of_the_container_is_live :: bool where
  "keeps_the_memory_gauge_while_another_restart_of_the_container_is_live \<longleftrightarrow>
     (let c = record_event (event_for ''api-7d9'' ''containerd://restart-2'' (T0 + TTL))
                (record_event (event_for ''api-7d9'' ''containerd://restart-1'' T0) fresh_collector) in
      case evict_from (T0 + TTL) TTL c of (n, c') \<Rightarrow> n = 1 \<and> \<not> displays (c') (''containerd://restart-1'')
        \<and> displays (c') (''containerd://restart-2'')
        \<and> shown_count c' ''oom_memory_usage_bytes{'' = length MEMORY_TYPES)"

definition removes_the_memory_gauge_once_the_last_restart_goes_stale :: bool where
  "removes_the_memory_gauge_once_the_last_restart_goes_stale \<longleftrightarrow>
     (let c = snd (evict_from (T0 + TTL) TTL (record_event (event_for ''api-7d9'' ''containerd://restart-2'' (T0 + TTL))
                (record_event (event_for ''api-7d9'' ''containerd://restart-1'' T0) fresh_collector))) in
      case evict_from (T0 + 2 * TTL) TTL c of (n, c') \<Rightarrow> n = 1 \<and> \<not> displays (c') (''oom_memory_usage_bytes{''))"

definition does_not_emit_a_drop_series_until_something_is_dropped :: bool where
  "does_not_emit_a_drop_series_until_something_is_dropped \<longleftrightarrow>
     (let c = record_dropped 0 fresh_collector in \<not> displays (c) (''oom_events_dropped_total{''))"

definition a_smaller_later_kill_does_not_overwrite_the_peak :: bool where
  "a_smaller_later_kill_does_not_overwrite_the_peak \<longleftrightarrow>
     (let c = record_event (event_using ''api-7d9'' (T0 + 1) (4000, 0, 828, 0))
                (record_event (event_using ''api-7d9'' T0 (70000, 64260, 0, 0)) fresh_collector) in
      memory_gauge c ''anon_rss'' = Some (F64 (64260 * KIB)) \<and> memory_gauge c ''total_vm'' = Some (F64 (70000 * KIB)))"

definition a_larger_later_kill_raises_the_peak :: bool where
  "a_larger_later_kill_raises_the_peak \<longleftrightarrow>
     (let c = record_event (event_using ''api-7d9'' (T0 + 1) (70000, 64260, 0, 0))
                (record_event (event_using ''api-7d9'' T0 (4000, 0, 828, 0)) fresh_collector) in
      memory_gauge c ''anon_rss'' = Some (F64 (64260 * KIB)))"

definition each_memory_type_peaks_independently :: bool where
  "each_memory_type_peaks_independently \<longleftrightarrow>
     (let c = record_event (event_using ''api-7d9'' (T0 + 1) (0, 0, 828, 0))
                (record_event (event_using ''api-7d9'' T0 (0, 64260, 0, 0)) fresh_collector) in
      memory_gauge c ''anon_rss'' = Some (F64 (64260 * KIB)) \<and> memory_gauge c ''file_rss'' = Some (F64 (828 * KIB)))"

definition eviction_resets_the_peak :: bool where
  "eviction_resets_the_peak \<longleftrightarrow>
     (let c = record_event (event_using ''api-7d9'' (T0 + TTL) (4000, 1024, 0, 0))
                (snd (evict_from (T0 + TTL) TTL (record_event (event_using ''api-7d9'' T0 (70000, 64260, 0, 0)) fresh_collector))) in
      memory_gauge c ''anon_rss'' = Some (F64 (1024 * KIB)))"

section \<open>They pass\<close>

lemma metrics_tests_pass_1:
  "counts_failures_by_reason_and_ignores_found"
  "advances_the_drop_counter_by_the_delta_between_readings"
  "ignores_a_drop_total_that_moves_backwards"
  by code_simp+

lemma metrics_tests_pass_2:
  "evicts_a_series_untouched_for_at_least_the_ttl"
  "keeps_a_series_touched_within_the_ttl"
  "a_deleted_pods_series_goes_on_the_pods_schedule_not_the_ttls"
  by code_simp+

lemma metrics_tests_pass_3:
  "a_deleted_pods_series_survives_until_the_grace_has_passed"
  "deleting_a_pod_takes_every_restart_of_its_containers"
  "a_deleted_pod_leaves_another_pods_series_alone"
  by code_simp+

lemma metrics_tests_pass_4:
  "forgets_a_deleted_pod_that_never_oomed"
  "keeps_a_deleted_pods_bookkeeping_until_it_is_due"
  "distinguishes_pods_of_the_same_name_in_different_namespaces"
  by code_simp+

lemma metrics_tests_pass_5:
  "evicts_only_the_stale_series_and_leaves_fresh_ones"
  "evicting_removes_every_memory_type_gauge"
  "a_later_touch_extends_the_lifetime_of_a_series"
  by code_simp+

lemma metrics_tests_pass_6:
  "forgets_the_evicted_key_so_a_second_sweep_is_a_no_op"
  "a_series_recreated_after_eviction_starts_from_zero"
  "counts_evictions_per_node"
  by code_simp+

lemma metrics_tests_pass_7:
  "does_not_emit_an_eviction_series_until_something_is_evicted"
  "leaves_node_scoped_series_alone"
  "evicts_the_unknown_label_set_of_an_unresolved_event"
  by code_simp+

lemma metrics_tests_pass_8:
  "labels_oom_kills_total_with_the_container_and_image_ids"
  "labels_oom_last_timestamp_with_the_container_and_image_ids"
  "leaves_the_memory_gauge_label_set_unchanged"
  by code_simp+

lemma metrics_tests_pass_9:
  "falls_back_to_unknown_for_both_ids_when_resolution_failed"
  "keeps_the_memory_gauge_while_another_restart_of_the_container_is_live"
  "removes_the_memory_gauge_once_the_last_restart_goes_stale"
  by code_simp+

lemma metrics_tests_pass_10:
  "does_not_emit_a_drop_series_until_something_is_dropped"
  "a_smaller_later_kill_does_not_overwrite_the_peak"
  "a_larger_later_kill_raises_the_peak"
  by code_simp+

lemma metrics_tests_pass_11:
  "each_memory_type_peaks_independently"
  "eviction_resets_the_peak"
  by code_simp+

end
