(* ===== verification/Spec2Isabelle.thy ===== *)
theory Spec2Isabelle
  imports Drops Concurrency Registration Log Build Tests_Kubernetes Tests_Watch Tests_Metrics
begin

text \<open>
  A model of ebpf-oom-watcher, a DaemonSet that reports the kernel's OOM kills as Prometheus
  metrics of the containers they hit.

  The program. An eBPF program on the tracepoint \<open>oom:mark_victim\<close> copies each kill into a
  ring buffer (\<open>oom-watcher-ebpf/src/main.rs\<close>). A userspace process checks that the kernel's
  trace entry has the layout the program reads (\<open>tracepoint.rs\<close>), loads it, drains the ring
  (\<open>source.rs\<close>), finds the container of each killed process through its cgroup and a mirror
  of the node's pods (\<open>kubernetes.rs\<close>, \<open>resolve.rs\<close>, \<open>enrich.rs\<close>), and counts the kill
  (\<open>watch.rs\<close>, \<open>metrics.rs\<close>). A sweeper removes series that have gone stale or whose pod is
  gone. A second endpoint reports whether the loop still runs (\<open>health.rs\<close>, \<open>http.rs\<close>).
  \<open>main.rs\<close> starts and supervises the tasks.

  The theories, each over those before it:

    \<^item> \<open>Prelude\<close>: machine integers under their Rust names, saturating and checked arithmetic,
      \<open>find_map\<close>, \<open>HashMap\<close> as an association list. \<open>Rust_Float\<close>: \<open>f64\<close> of non-negative
      integers with round-to-nearest-even. \<open>Rust_Str\<close>: the \<open>str\<close> functions, integer parsing and
      printing, reading a file.
    \<^item> \<open>Layout\<close>, \<open>Events\<close>: \<open>#[repr(C)]\<close>, bytes of a struct and back; \<open>OomKillEvent\<close>,
      \<open>ContainerIdentity\<close>, \<open>EnrichedOomEvent\<close> of \<open>oom-watcher-common\<close>.
    \<^item> \<open>Tracepoint\<close>: \<open>parse_format\<close>, \<open>check_layout\<close>, \<open>verify_kernel_layout\<close>; that printing and
      parsing a format file is the identity on its fields, and what the check accepts and reports.
    \<^item> \<open>Ring\<close>, \<open>Probe\<close>: the ring buffer as an interface with a bounded implementation, and the
      same ring with a journal of every record it has accepted, which lets a theorem say what
      arrived; \<open>MarkVictimArgs\<close> and \<open>mark_victim\<close>, its silent return when its arguments cannot be
      read included, and that the check covers exactly what it decodes.
    \<^item> \<open>Source\<close>: the seam \<open>OomEventSource\<close> as a locale (what a poll delivers and what the source
      owes add up to what it owed and what arrived), \<open>RingBufSource\<close> with its drain as a
      \<open>while\<close> loop (it ends, since every pop shortens the ring), start-up, and the readiness
      protocol with the reactor as a step relation in which arrivals fall between any two steps.
    \<^item> \<open>Label_Vec\<close>, \<open>Metrics\<close>, \<open>Collector_Laws\<close>, \<open>Eviction\<close>: the metric families of the
      \<open>prometheus\<close> crate as a locale, the collector's operations, what each does to each part
      of the state (proved from the laws of the families alone), and the collector's invariant,
      sweeps, deletions, peaks and drop counter. \<open>Registration\<close>: the seven families as
      \<open>MetricsCollector::new\<close> creates and registers them against the checks of the crate's
      registry, and that no call can panic.
    \<^item> \<open>Tasks\<close>: the tasks that share the collector, each call cut into the statements that other
      tasks can come between, with the two mutexes and the lock of every family taken and given
      back explicitly; the lock order, that work in hand ends (a multiset order), and that a call
      whose task runs alone is the operation of \<open>Metrics\<close>. \<open>Concurrency\<close>: what holds under any
      interleaving (no leaked series, no deadlock, no unguarded write) and what does not.
    \<^item> \<open>Cgroup\<close>, \<open>Pods\<close>, \<open>Pod_Cache\<close>, \<open>Client\<close>: the container-id patterns over the documented
      leftmost-first semantics, matching against pod statuses, the cache over the reflector's
      interface, and the resolver with its three outcomes.
    \<^item> \<open>Resolution\<close>: the outcomes and \<open>enrich\<close>. \<open>Watch\<close>: the recording seam as a locale
      (interpreted by the collector and by the tests' spy) and the loop over any source, resolver,
      recorder and schedule. \<open>Log\<close>: the log lines of an event, with \<open>from_utf8\<close> on the
      process name.
    \<^item> \<open>Health\<close>, \<open>Http\<close>, \<open>Supervisor\<close>: the heartbeat, the two endpoints, configuration, the
      bodies of the tasks, start-up and the exit status.
    \<^item> \<open>Pipeline\<close>, \<open>Drops\<close> and this theory: the properties that span components, among them
      that every kill and every lost kill ends up in a counter.
    \<^item> \<open>Build\<close>: the two build scripts, as functions of the environment, the files and the
      nested \<open>cargo\<close>.
    \<^item> \<open>Tests_Kubernetes\<close>, \<open>Tests_Watch\<close>, \<open>Tests_Metrics\<close>: the repository's unit tests under
      their names, each shown to pass on the model, which ties the model to the expectations its
      authors wrote down.

  Conventions. A struct is a record and a method a function that takes and returns it; a
  \<open>Mutex\<close> or an atomic is a field, and only \<open>Tasks\<close> speaks of who holds it. Integers keep
  their width and wrap as release builds do; strings are their UTF-8 bytes. \<open>Result\<close> is a sum with the error
  left, an error being its message. Code that is not in the repository (the kernel's helpers,
  \<open>aya\<close>, \<open>tokio\<close>, \<open>kube\<close>, \<open>regex\<close>, \<open>prometheus\<close>, \<open>axum\<close>) is a parameter, with what the program
  relies on as the laws of a locale and a concrete interpretation. Schedules, clocks, files and
  the environment are arguments, so that the theorems hold for all of them.

  Not modelled: the other log lines, the encoder of the text format (the tests instantiate it by
  the documented format) and HTTP serving itself, memory orderings beyond the order of the two
  stores of \<open>mark_started\<close>, and the chart, manifests and shell scripts. What
  the \<open>prometheus\<close> crate does under one family's lock is one step of \<open>Tasks\<close>, and each atomic
  access to a value is another; a gauge's read and its write are two. Poisoned locks do not
  arise, as the sources ignore the poison. No fuel is used: loops are structural, or proved to
  end. Counts are exact below \<open>2 ^ 53\<close>, where doubles are.
\<close>

section \<open>From the tracepoint to the event\<close>

lemma attached_verified:
  assumes "ring_buf_source_new fs aya maps = (r, made)" "Attach \<in> set made"
  shows "verify_kernel_layout fs = Inr ()"
proof (rule ccontr)
  assume "verify_kernel_layout fs \<noteq> Inr ()"
  then obtain e where "verify_kernel_layout fs = Inl e" by (cases "verify_kernel_layout fs") auto
  with assms show False by (auto simp: ring_buf_source_new_def startup_calls_def)
qed

lemma verified_layout:
  "verify_kernel_layout fs = Inr () \<Longrightarrow> readable_format fs = Some text \<Longrightarrow> check_layout text = []"
  using read_format_readable [of fs "text"]
  by (auto simp: verify_kernel_layout_def Let_def split: sum.splits if_splits)

text \<open>
  (C1) If the probe was attached, what userspace decodes is what the kernel reported: with the
  format file that start-up read describing the kernel's entry, a firing sends bytes from which
  the source reads back exactly the kernel's values of all fields, whatever the padding; or,
  when the buffer is full, adds one to the drops of its CPU.
\<close>

theorem attached_probe_reports_kernel_values:
  assumes "ring_buf_source_new fs aya maps = (r, made)" "Attach \<in> set made"
    and "readable_format fs = Some text" "kernel_entry text len val"
    and "bpf_read bpf ctx size_of_MarkVictimArgs
           = Some (take size_of_MarkVictimArgs (struct_bytes (parse_format text) len val entry_pad))"
    and "\<And>a buf. length (bpf_read_str bpf a buf) = length buf"
  shows "\<exists>b. decode_record b = Some (kernel_event val (kernel_comm bpf ctx val))
           \<and> mark_victim bpf pad ctx cpu s =
               (case bpf_output bpf (EVENTS s) b of
                  Some ring \<Rightarrow> (0, s\<lparr>EVENTS := ring\<rparr>)
                | None \<Rightarrow> (0, if cpu < length (DROPPED s)
                               then s\<lparr>DROPPED := (DROPPED s)[cpu := DROPPED s ! cpu + 1]\<rparr> else s))"
proof (intro exI conjI)
  let ?ev = "kernel_event val (kernel_comm bpf ctx val)"
  show "decode_record (event_bytes pad ?ev) = Some ?ev"
    using read_event_bytes [OF event_ok_kernel [OF assms(6)], where pad = pad and rest = "[]"]
    by (simp add: decode_record_def event_bytes_length)
  have "check_layout text = []" by (rule verified_layout [OF attached_verified [OF assms(1,2)] assms(3)])
  from mark_victim_kernel [OF this assms(4,5) refl, of pad cpu s]
  show "mark_victim bpf pad ctx cpu s =
      (case bpf_output bpf (EVENTS s) (event_bytes pad ?ev) of
         Some ring \<Rightarrow> (0, s\<lparr>EVENTS := ring\<rparr>)
       | None \<Rightarrow> (0, if cpu < length (DROPPED s)
                      then s\<lparr>DROPPED := (DROPPED s)[cpu := DROPPED s ! cpu + 1]\<rparr> else s))" .
qed

lemma modern_starts:
  "\<exists>r made. ring_buf_source_new (\<lambda>path. Inr MODERN) (\<lambda>c. Inr ()) sample_probe = (r, made) \<and> Attach \<in> set made"
  by (simp add: ring_buf_source_new_def startup_calls_def verify_kernel_layout_def read_format_def
      FORMAT_PATHS_def check_MODERN)

theorem attached_probe_reports_kernel_values_witness:
  "\<exists>b. decode_record b = Some (kernel_event sample_val (kernel_comm sample_bpf 0 sample_val))"
proof -
  obtain r made where m: "ring_buf_source_new (\<lambda>path. Inr MODERN) (\<lambda>c. Inr ()) sample_probe = (r, made)"
    "Attach \<in> set made" using modern_starts by blast
  have "readable_format (\<lambda>path. Inr MODERN) = Some MODERN"
    by (simp add: readable_format_def FORMAT_PATHS_def)
  from attached_probe_reports_kernel_values
    [OF m this sample_kernel_entry, of sample_bpf 0 "\<lambda>_. 0" "\<lambda>_. 0" 1 sample_probe]
  show ?thesis by (auto simp: sample_bpf_def)
qed

section \<open>From the event to the counter\<close>

text \<open>
  (C2) Conservation from the tracepoint to \<open>/metrics\<close>: start with empty maps and counters and let
  kills fire on any of the CPUs, in any bursts, while the loop runs over any schedule; then the
  kills counted for the node, the events still queued in userspace or in the ring, and the drops
  summed over the CPUs are together exactly the firings whose arguments the probe could read (as
  \<open>u64\<close>). A firing whose arguments cannot be read is the one that goes missing: it is in none of
  them.
\<close>

theorem every_kill_is_accounted_for:
  assumes "prom_vec P arity" "ring_buf put pop contents" "bpf_output bpf = put"
    and "S = ring_buf_source_ops pop (mark_victims bpf pad) get_dropped"
    and "contents ring = []"
      "s0 = \<lparr>rs_maps = \<lparr>EVENTS = ring, DROPPED = replicate ncpu 0\<rparr>, rs_pending = []\<rparr>"
    and "\<forall>tn \<in> set tns. cpus_ok ncpu (concat (fst (tn_env tn)))"
    and "run S (collector_recorder P) client heartbeat tns s0 (collector_new P) h = (e, s, c, h')"
    and "length (deliveries S tns s0) < 2 ^ 53"
  shows "\<exists>counted. collector_kills P c (node_label client) = F64 counted
          \<and> of_nat counted + of_nat (length (rs_pending s)) + of_nat (length (contents (EVENTS (rs_maps s))))
              + sum_list (DROPPED (rs_maps s))
            = (of_nat (length (filter (args_readable bpf) (polled_fires S tns s0))) :: u64)"
proof (intro exI conjI)
  let ?n = "length (deliveries S tns s0)"
  have "sum_list (replicate ncpu (0 :: u64)) = 0" by (induction ncpu) simp_all
  then have fresh: "ring_buf.sound_maps contents ncpu (rs_maps s0)" "ring_buf.in_source contents s0 = 0"
    using assms(5) by (simp_all add: assms(6) ring_buf.sound_maps_def [OF assms(2)]
        ring_buf.in_source_def [OF assms(2)] ring_buf.held_def [OF assms(2)])
  show "collector_kills P c (node_label client) = F64 ?n"
    using prom_vec.collector_counts [OF assms(1) prom_vec.collector_new_facts(1) [OF assms(1)] assms(8),
        of "node_label client"] f64_count [OF assms(9)]
    by (simp add: collector_kills_def prom_vec.collector_new_facts [OF assms(1)])
  show "of_nat ?n + of_nat (length (rs_pending s)) + of_nat (length (contents (EVENTS (rs_maps s))))
      + sum_list (DROPPED (rs_maps s)) = (of_nat (length (filter (args_readable bpf) (polled_fires S tns s0))) :: u64)"
    using ring_buf.run_accounts [OF assms(2,3,4) fresh(1) assms(7,8)] fresh(2)
    by (simp add: reported_def ring_buf.in_source_def [OF assms(2)] ring_buf.held_def [OF assms(2)] algebra_simps)
qed

text \<open>
  Three kills while the loop waits, on a node without a cluster; the arguments of the last one
  cannot be read.
\<close>

definition faulty_bpf :: "bounded_ring bpf_helpers" where
  "faulty_bpf = sample_bpf\<lparr>bpf_read := (\<lambda>ctx n. if ctx = 7 then None else bpf_read sample_bpf ctx n)\<rparr>"

definition faulty_source :: "((nat \<times> nat) list list \<times> bool, bounded_ring ring_buf_source) source_ops" where
  "faulty_source = ring_buf_source_ops br_pop (mark_victims faulty_bpf (\<lambda>_. 0)) (\<lambda>m. Some (DROPPED m))"

definition burst_turn :: "((nat \<times> nat) list list \<times> bool, unit) turn" where
  "burst_turn = \<lparr>tn_beat_first = False, tn_env = ([[(0, 0), (0, 1), (7, 0)]], False), tn_world = (),
     tn_event_clock = 1000, tn_beat_clock = 1000\<rparr>"

lemma at_most_one_delivery: "length (deliveries S [tn] s) < 2 ^ 53"
  by (simp split: prod.split wake.split)

theorem every_kill_is_accounted_for_witness:
  "\<exists>e s c h' counted.
     run faulty_source (collector_recorder assoc_prom) (None :: unit resolver option) (\<lambda>t h. h) [burst_turn]
       \<lparr>rs_maps = \<lparr>EVENTS = br_new EVENTS_byte_size, DROPPED = replicate 2 0\<rparr>, rs_pending = []\<rparr>
       (collector_new assoc_prom) () = (e, s, c, h')
     \<and> collector_kills assoc_prom c ''unknown'' = F64 counted
     \<and> of_nat counted + of_nat (length (rs_pending s)) + of_nat (length (br_records (EVENTS (rs_maps s))))
         + sum_list (DROPPED (rs_maps s)) = (2 :: u64)"
proof -
  let ?s0 = "\<lparr>rs_maps = \<lparr>EVENTS = br_new EVENTS_byte_size, DROPPED = replicate 2 0\<rparr>, rs_pending = []\<rparr>"
  obtain e s c h' where r: "run faulty_source (collector_recorder assoc_prom) (None :: unit resolver option)
      (\<lambda>t h. h) [burst_turn] ?s0 (collector_new assoc_prom) () = (e, s, c, h')" by (metis prod_cases4)
  have "bpf_output faulty_bpf = br_output" "br_records (br_new EVENTS_byte_size) = []"
    "\<forall>tn \<in> set [burst_turn]. cpus_ok 2 (concat (fst (tn_env tn)))"
    by (simp_all add: faulty_bpf_def sample_bpf_def br_new_def burst_turn_def cpus_ok_def)
  note kills = every_kill_is_accounted_for [OF assoc.prom_vec_axioms br.ring_buf_axioms this(1)
      faulty_source_def this(2) refl this(3) r at_most_one_delivery]
  have "length (filter (args_readable faulty_bpf) (polled_fires faulty_source [burst_turn] ?s0)) = 2"
    by (simp add: burst_turn_def args_readable_def faulty_bpf_def sample_bpf_def split: prod.split wake.split)
  with kills r show ?thesis by (auto simp: node_label_def simp del: run.simps)
qed

definition kill_labels :: "string \<Rightarrow> resolution_outcome \<Rightarrow> string list" where
  "kill_labels node out =
     (case out of
        Found i \<Rightarrow> [node, ci_namespace i, ci_pod_name i, ci_container_name i, ci_container_id i, ci_image_id i]
      | _ \<Rightarrow> node # replicate 5 ''unknown'')"

lemma labels_of_event:
  "labels (event_key (enrich raw (Some node) (outcome_identity out) t)) = kill_labels node out"
  by (cases out) (simp_all add: kill_labels_def labels_def event_key_def or_unknown_def numeral_eq_Suc)

text \<open>
  (C3) A kill lands in the series that its resolution names: the counter with the node and the
  identity's five labels verbatim, as \<open>kube_pod_container_info\<close> carries them, goes up by one
  when the container was found; otherwise the one with \<open>unknown\<close> in their place does; and no
  other series of the family moves.
\<close>

theorem kill_lands_in_resolved_series:
  assumes "prom_vec P arity" "collector_reachable P c"
    and "c' = process_event (collector_recorder P) (Some r) world raw t c"
  shows "pm_get P (oom_kills_total c') ls =
     (if ls = kill_labels (rv_node_name r) (rv_resolve r world (ev_pid raw))
      then Some (value_or_0 (pm_get P (oom_kills_total c) ls) + 1)
      else pm_get P (oom_kills_total c) ls)"
proof -
  let ?out = "rv_resolve r world (ev_pid raw)"
  let ?c1 = "record_resolution_outcome P (rv_node_name r) ?out c"
  have "arities_ok arity ?c1"
    by (rule collector_okD(1) [OF prom_vec.reachable_ok [OF assms(1) reach_outcome [OF assms(2)]]])
  from prom_vec.record_oom_event_families(1) [OF assms(1) this]
  show ?thesis
    by (simp add: assms(3) process_event_def Let_def collector_recorder_def labels_of_event
        record_resolution_outcome_other)
qed

theorem kill_lands_in_resolved_series_witness:
  "pm_get assoc_prom (oom_kills_total (process_event (collector_recorder assoc_prom)
      (Some (fake_resolver ''n'' (Behave_found (sample_identity ''cid''))) :: unit resolver option) () (test_raw 1) 5
      (collector_new assoc_prom))) [''n'', ''prod'', ''api-7d9'', ''api'', ''cid'', ''repo@sha256:def456''] = Some 1"
  using kill_lands_in_resolved_series [OF assoc.prom_vec_axioms reach_new refl,
      of "fake_resolver ''n'' (Behave_found (sample_identity ''cid''))" "()" "test_raw 1" 5
        "[''n'', ''prod'', ''api-7d9'', ''api'', ''cid'', ''repo@sha256:def456'']"]
  by (simp add: fake_resolver_def kill_labels_def sample_identity_def assoc.collector_new_facts
      zero_f64_def one_f64_def f64_plus_exact)

section \<open>From the pod's deletion to its series\<close>

text \<open>
  (C8) Cardinality follows the pods: when the watch stream has reported the deletion of a pod at
  time \<open>t\<close>, then, whatever is recorded, noted and swept in the meantime (short of a second report
  of the same pod's deletion, which starts the grace anew), the first sweep at or after \<open>t + 120\<close>
  leaves no series of it in the collector, neither kill counters and timestamps of any container
  and instance nor memory gauges, and no note of the deletion either.
\<close>

theorem deleted_pods_lose_their_series:
  assumes "prom_vec P arity" "collector_reachable P c"
    and "cache_task apply_ev (\<lambda>ns name. note_pod_deleted ns name t) items (store, c) = (store', c1)"
    and "(ns, name) \<in> set (deletions items)"
    and "list_all (before_due ns name t) meanwhile" "unat t + 120 \<le> unat now"
    and "evict_stale P now ttl (fold (apply_call P) meanwhile c1) = (n, c')"
  shows "(\<forall>k. sk_namespace k = ns \<and> sk_pod k = name \<longrightarrow>
            k \<notin> tracked c' \<and> pm_get P (oom_kills_total c') (labels k) = None
            \<and> pm_get P (oom_last_timestamp c') (labels k) = None
            \<and> (\<forall>memory_type. pm_get P (oom_memory_usage_bytes c') (memory_labels k memory_type) = None))
       \<and> (ns, name) \<notin> hm_keys (deleted_after c')"
proof -
  let ?c2 = "fold (apply_call P) meanwhile c1"
  have c1: "c1 = fold (\<lambda>(ns, name). note_pod_deleted ns name t) (deletions items) c"
    using deletions_reported [of apply_ev "\<lambda>ns name. note_pod_deleted ns name t" items store c] assms(3) by simp
  have noted: "collector_reachable P c1"
    "map_of (deleted_after c1) (ns, name) = Some (saturating_add t DELETED_POD_GRACE_SECONDS)"
    unfolding c1 using deletions_scheduled [OF assms(2), of t "deletions items" ns name] assms(4) by simp_all
  have "unat now < 2 ^ LENGTH(64)" by (rule unsigned_less)
  with assms(6) have t: "unat t + 120 < 2 ^ 64" by simp
  from due_kept [OF assms(1) t assms(5) noted] have reach: "collector_reachable P ?c2"
    and due: "map_of (deleted_after ?c2) (ns, name) = Some (saturating_add t DELETED_POD_GRACE_SECONDS)" by blast+
  have at: "saturating_add t DELETED_POD_GRACE_SECONDS \<le> now"
    using assms(6) t by (simp add: word_le_nat_alt unat_grace)
  have "map_of (deleted_after c') (ns, name) = None"
    using evict_stale_other(6) [of P now ttl ?c2] assms(7) due at
    by (simp add: map_of_hm_retain [OF collector_okD(3) [OF prom_vec.reachable_ok [OF assms(1) reach]]] not_less)
  then have "(ns, name) \<notin> hm_keys (deleted_after c')" unfolding map_of_eq_None_iff .
  with sweep_clears_pod [OF assms(1) reach assms(7) due at] show ?thesis by blast
qed

text \<open>The pod is killed once more in the meantime, and a sweep comes too early.\<close>

theorem deleted_pods_lose_their_series_witness:
  "pm_get assoc_prom (oom_memory_usage_bytes (snd (evict_stale assoc_prom 1120 1800
     (fold (apply_call assoc_prom) [Record_Event (sample_event ''cid-2'' 1050), Evict_Stale 1100 1800]
       (snd (cache_task (so_apply assoc_reflector) (\<lambda>ns name. note_pod_deleted ns name 1000)
         (sample_stream (sample_pod ''api-7d9'' [])) (assoc_store_new, sample_collector)))))))
     (memory_labels (sample_key ''cid-1'') ''anon_rss'') = None"
proof -
  let ?items = "sample_stream (sample_pod ''api-7d9'' [])"
  let ?calls = "[Record_Event (sample_event ''cid-2'' 1050), Evict_Stale 1100 1800]"
  obtain store' c1 where t: "cache_task (so_apply assoc_reflector) (\<lambda>ns name. note_pod_deleted ns name 1000)
      ?items (assoc_store_new, sample_collector) = (store', c1)" by fastforce
  obtain n c' where e: "evict_stale assoc_prom 1120 1800 (fold (apply_call assoc_prom) ?calls c1) = (n, c')" by fastforce
  have "(''prod'', ''api-7d9'') \<in> set (deletions ?items)" "list_all (before_due ''prod'' ''api-7d9'' 1000) ?calls"
    by (simp_all add: deletions_def sample_stream_def map_filter_simps pod_key_def sample_pod_def)
  from deleted_pods_lose_their_series [OF assoc.prom_vec_axioms sample_reachable t this _ e]
  have "pm_get assoc_prom (oom_memory_usage_bytes c') (memory_labels (sample_key ''cid-1'') ''anon_rss'') = None"
    by (simp add: sample_key_def)
  with t e show ?thesis by simp
qed

end
